theory Spec2Isabelle
  imports Main "HOL-Library.Sublist"
begin

section \<open>Names, Interests and Data\<close>

text \<open>
  A name component is a byte string and a Name is the list of its components. The classes
  Name, Interest, Data and Blob live in files of the library that are outside the sources
  at hand (\<^verbatim>\<open>js/name.js\<close>, \<^verbatim>\<open>js/interest.js\<close>, \<^verbatim>\<open>js/data.js\<close>); the records
  below hold the fields that \<^verbatim>\<open>face.js\<close>, the segment fetcher and the pipelined fetcher
  read and write.
\<close>

type_synonym component = string
type_synonym name = "component list"
type_synonym bytes = string

record Interest =
  interestName :: name
  childSelector :: "nat option"
  mustBeFresh :: bool
  interestLifetimeMilliseconds :: "nat option"

text \<open>
  \<^verbatim>\<open>content\<close> is \<open>None\<close> for a null Blob (\<^verbatim>\<open>getContent().isNull()\<close>);
  \<^verbatim>\<open>finalBlockId\<close> is the FinalBlockId component of the MetaInfo, the empty component
  when it is not set (\<^verbatim>\<open>getFinalBlockId().getValue().size() == 0\<close>).
\<close>

record Data =
  dataName :: name
  content :: "bytes option"
  finalBlockId :: component

text \<open>
  Modelled from the spec: \<^verbatim>\<open>Name.match\<close> (\<^verbatim>\<open>js/name.js\<close>), which is not among the
  sources. The spec's data model gives a Name the operation "prefix-match": the components of
  the first name are the leading components of the second.
\<close>

definition match :: "name \<Rightarrow> name \<Rightarrow> bool" where
  "match p n = (length p \<le> length n \<and> take (length p) n = p)"

text \<open>
  Modelled from the spec: \<^verbatim>\<open>DataUtils.bigEndianToUnsignedInt\<close> and
  \<^verbatim>\<open>DataUtils.nonNegativeIntToBigEndian\<close> (\<^verbatim>\<open>js/encoding/data-utils.js\<close>), which are not
  among the sources. The spec: a segment number is written in "a minimal big-endian encoding
  of the integer", and 0 has no byte of its own after the marker.
\<close>

definition bigEndianToUnsignedInt :: "bytes \<Rightarrow> nat" where
  "bigEndianToUnsignedInt bs = foldl (\<lambda>acc b. acc * 256 + of_char b) 0 bs"

function nonNegativeIntToBigEndian :: "nat \<Rightarrow> bytes" where
  "nonNegativeIntToBigEndian n =
     (if n = 0 then [] else nonNegativeIntToBigEndian (n div 256) @ [char_of (n mod 256)])"
  by pat_completeness auto
termination
  by (relation "measure id") auto

text \<open>
  Modelled from the spec: \<^verbatim>\<open>Name.Component.toSegment\<close> and \<^verbatim>\<open>Name.appendSegment\<close>
  (\<^verbatim>\<open>js/name.js\<close>), which are not among the sources. The spec: a segment-number component
  is "exactly 0x00 followed by a minimal big-endian encoding of the integer (0 encodes as the
  single byte 0x00)"; a component without the marker byte is not a segment number, and
  \<^verbatim>\<open>toSegment\<close> throws on it (\<open>None\<close>).
\<close>

definition toSegment :: "component \<Rightarrow> nat option" where
  "toSegment c =
     (case c of
        [] \<Rightarrow> None
      | m # rest \<Rightarrow> if m = CHR 0x00 then Some (bigEndianToUnsignedInt rest) else None)"

definition segmentComponent :: "nat \<Rightarrow> component" where
  "segmentComponent n = CHR 0x00 # nonNegativeIntToBigEndian n"

definition appendSegment :: "name \<Rightarrow> nat \<Rightarrow> name" where
  "appendSegment n segment = n @ [segmentComponent segment]"

section \<open>JavaScript array helpers\<close>

text \<open>\<^verbatim>\<open>Array.prototype.indexOf\<close>: the first index holding the value, \<open>None\<close> for -1.\<close>

fun indexOf :: "'a list \<Rightarrow> 'a \<Rightarrow> nat option" where
  "indexOf [] x = None"
| "indexOf (y # ys) x = (if y = x then Some 0 else map_option Suc (indexOf ys x))"

text \<open>\<^verbatim>\<open>array.splice(i, 1)\<close>: delete the element at index \<open>i\<close>.\<close>

definition splice1 :: "nat \<Rightarrow> 'a list \<Rightarrow> 'a list" where
  "splice1 i xs = take i xs @ drop (Suc i) xs"

text \<open>
  A sparse array of numbers: reading an index that was never written gives
  \<^verbatim>\<open>undefined\<close> (\<open>None\<close>), and writing beyond the end extends the array with holes.
\<close>

definition array_get :: "'a option list \<Rightarrow> nat \<Rightarrow> 'a option" where
  "array_get xs i = (if i < length xs then xs ! i else None)"

definition array_set :: "'a option list \<Rightarrow> nat \<Rightarrow> 'a option \<Rightarrow> 'a option list" where
  "array_set xs i v =
     (if i < length xs then xs[i := v]
      else xs @ replicate (i - length xs) None @ [v])"

section \<open>The Face\<close>

datatype ReadyStatus = UNOPEN | OPEN_REQUESTED | OPENED | CLOSED

text \<open>The Errors thrown by the modelled code, by what they report.\<close>

datatype error =
    EncodedTooLarge
  | ConnectionNotOpened
  | KeyChainNotSet
  | CertificateNameNotSet
  | TypeError
  | NoSegmentMarker

text \<open>
  \<^verbatim>\<open>Face.RegisterResponse\<close>: the object whose \<^verbatim>\<open>onData\<close> and \<^verbatim>\<open>onTimeout\<close>
  receive the forwarder's answer to a register command. Application functions are
  identified by a label of type \<open>nat\<close>.
\<close>

record RegisterResponse =
  response_prefix :: name
  response_onInterest :: "nat option"
  response_onRegisterFailed :: "nat option"
  response_flags :: nat

text \<open>
  The functions stored in a PIT entry: one supplied by the application, the empty
  \<^verbatim>\<open>function() {}\<close>, or the bound \<^verbatim>\<open>onData\<close> / \<^verbatim>\<open>onTimeout\<close> of a RegisterResponse.
\<close>

datatype handler =
    AppCallback nat
  | EmptyFunction
  | Bound_onData RegisterResponse
  | Bound_onTimeout RegisterResponse

text \<open>
  \<^verbatim>\<open>Face.PendingInterest\<close>. The constructor sets \<^verbatim>\<open>timerID = -1\<close> and
  \<^verbatim>\<open>expressInterestHelper\<close> overwrites it with the handle of \<^verbatim>\<open>setTimeout\<close> before
  anything can observe the entry, so the field holds that handle from the start.
\<close>

record PendingInterest =
  pendingInterestId :: "nat option"
  interest :: Interest
  onData :: handler
  onTimeout :: "handler option"
  timerID :: nat

record RegisteredPrefix =
  registeredPrefixId :: nat
  prefix :: name
  relatedInterestFilterId :: nat

record InterestFilter =
  filterPrefix :: name
  regexFilter :: "string option"

record InterestFilterEntry =
  interestFilterId :: nat
  filter' :: InterestFilter
  onInterest :: "nat option"

text \<open>
  The transport is an external collaborator. The Face only calls \<^verbatim>\<open>connect\<close>,
  \<^verbatim>\<open>send\<close> and \<^verbatim>\<open>close\<close> on it and reads its \<^verbatim>\<open>connectionInfo\<close>; the record keeps
  what those calls leave behind: the connection info given to the last \<^verbatim>\<open>connect\<close>, the
  buffers handed to \<^verbatim>\<open>send\<close> in order, and the number of \<^verbatim>\<open>close\<close> calls.
\<close>

record Transport =
  transport_connectionInfo :: "string option"
  sent :: "bytes list"
  closeCalls :: nat

text \<open>
  A function the Face has queued in \<^verbatim>\<open>onConnectedCallbacks\<close>: a deferred call of
  \<^verbatim>\<open>expressInterestHelper\<close> with its four arguments.
\<close>

datatype deferred =
  Deferred_expressInterestHelper "nat option" Interest handler "handler option"

text \<open>Calls the Face makes into functions it was given.\<close>

datatype call =
    Call_onData PendingInterest Data
  | Call_onTimeout PendingInterest
  | Call_onRegisterFailed nat name
  | Call_onInterest InterestFilterEntry Interest
  | Call_onopen
  | Call_onclose

text \<open>
  The fields of a Face that the modelled methods use, then the part of the JavaScript
  runtime they act on: the timers set by \<^verbatim>\<open>setTimeout\<close> and not yet fired or cleared
  (handle, delay in milliseconds, and the PIT entry the timeout closure captured), the next
  timer handle, and the log of calls made so far.
\<close>

record Face =
  transport :: Transport
  connectionInfo :: "string option"
  readyStatus :: ReadyStatus
  onConnectedCallbacks :: "deferred list"
  commandKeyChain :: "nat option"
  commandCertificateName :: name
  pendingInterestTable :: "PendingInterest list"
  pitRemoveRequests :: "nat list"
  registeredPrefixTable :: "RegisteredPrefix list"
  registeredPrefixRemoveRequests :: "nat list"
  interestFilterTable :: "InterestFilterEntry list"
  lastEntryId :: nat
  timers :: "(nat \<times> nat \<times> PendingInterest) list"
  nextTimerID :: nat
  calls :: "call list"

text \<open>
  The parts of the library that the Face calls and that are outside the sources, taken as
  parameters: the TLV encoding of an Interest, the selector matching of an Interest against
  a Data name, the matching of an InterestFilter, the decoding of the StatusCode of a
  ControlResponse (\<open>None\<close> when the decoder throws), the encoding of ControlParameters
  from a prefix and flags, the command-Interest generator (timestamp, nonce and signature
  for a key chain and certificate name), and the transport's \<^verbatim>\<open>isLocal\<close>
  (\<open>Inl\<close> the error message).
\<close>

record Library =
  wireEncode :: "Interest \<Rightarrow> bytes"
  matchesName :: "Interest \<Rightarrow> name \<Rightarrow> bool"
  doesMatch :: "InterestFilter \<Rightarrow> name \<Rightarrow> bool"
  readStatusCode :: "bytes \<Rightarrow> nat option"
  controlParameters_wireEncode :: "name \<Rightarrow> nat \<Rightarrow> component"
  generate :: "Interest \<Rightarrow> nat \<Rightarrow> name \<Rightarrow> Interest"
  transport_isLocal :: "string \<Rightarrow> string + bool"

definition timeoutPrefix :: name where
  "timeoutPrefix = [''local'', ''timeout'']"

text \<open>
  Modelled from the spec: \<^verbatim>\<open>NdnCommon.MAX_NDN_PACKET_SIZE\<close> (\<^verbatim>\<open>js/util/ndn-common.js\<close>),
  which is not among the sources. The spec gives the packet ceiling as 8800 bytes.
\<close>

definition MAX_NDN_PACKET_SIZE :: nat where
  "MAX_NDN_PACKET_SIZE = 8800"

definition getMaxNdnPacketSize :: nat where
  "getMaxNdnPacketSize = MAX_NDN_PACKET_SIZE"

text \<open>The state the constructor leaves, for a given connection info.\<close>

definition newFace :: "string option \<Rightarrow> Face" where
  "newFace ci =
     \<lparr> transport = \<lparr> transport_connectionInfo = None, sent = [], closeCalls = 0 \<rparr>,
       connectionInfo = ci,
       readyStatus = UNOPEN,
       onConnectedCallbacks = [],
       commandKeyChain = None,
       commandCertificateName = [],
       pendingInterestTable = [],
       pitRemoveRequests = [],
       registeredPrefixTable = [],
       registeredPrefixRemoveRequests = [],
       interestFilterTable = [],
       lastEntryId = 0,
       timers = [],
       nextTimerID = 0,
       calls = [] \<rparr>"

subsection \<open>Transport and timer primitives\<close>

definition transport_send :: "bytes \<Rightarrow> Face \<Rightarrow> Face" where
  "transport_send b f = f\<lparr>transport := (transport f)\<lparr>sent := sent (transport f) @ [b]\<rparr>\<rparr>"

definition transport_close :: "Face \<Rightarrow> Face" where
  "transport_close f =
     f\<lparr>transport := (transport f)\<lparr>closeCalls := Suc (closeCalls (transport f))\<rparr>\<rparr>"

definition transport_connect :: "string \<Rightarrow> Face \<Rightarrow> Face" where
  "transport_connect ci f =
     f\<lparr>transport := (transport f)\<lparr>transport_connectionInfo := Some ci\<rparr>\<rparr>"

text \<open>\<^verbatim>\<open>clearTimeout(h)\<close>: the timer with handle \<open>h\<close>, if still set, will not fire.\<close>

definition clearTimeout :: "nat \<Rightarrow> Face \<Rightarrow> Face" where
  "clearTimeout h f = f\<lparr>timers := filter (\<lambda>t. fst t \<noteq> h) (timers f)\<rparr>"

subsection \<open>close, closeByTransport, getNextEntryId\<close>

definition close :: "Face \<Rightarrow> Face" where
  "close f =
     (if readyStatus f \<noteq> OPENED then f
      else transport_close (f\<lparr>readyStatus := CLOSED\<rparr>))"

definition closeByTransport :: "Face \<Rightarrow> Face" where
  "closeByTransport f = f\<lparr>readyStatus := CLOSED, calls := calls f @ [Call_onclose]\<rparr>"

text \<open>\<^verbatim>\<open>return ++this.lastEntryId\<close>: the new id and the updated Face.\<close>

definition getNextEntryId :: "Face \<Rightarrow> nat \<times> Face" where
  "getNextEntryId f = (Suc (lastEntryId f), f\<lparr>lastEntryId := Suc (lastEntryId f)\<rparr>)"

subsection \<open>RegisterResponse\<close>

text \<open>
  \<^verbatim>\<open>Face.RegisterResponse.prototype.onData\<close>: decode the StatusCode of the content; a
  decoding error and a code other than 200 call \<^verbatim>\<open>onRegisterFailed(prefix)\<close> if it is
  set. No branch writes to the Face.
\<close>

definition RegisterResponse_onData :: "Library \<Rightarrow> RegisterResponse \<Rightarrow> Data \<Rightarrow> Face \<Rightarrow> Face" where
  "RegisterResponse_onData L r responseData f =
     (let failed = (case response_onRegisterFailed r of
                      Some g \<Rightarrow> f\<lparr>calls := calls f @ [Call_onRegisterFailed g (response_prefix r)]\<rparr>
                    | None \<Rightarrow> f)
      in case (case content responseData of None \<Rightarrow> None | Some b \<Rightarrow> readStatusCode L b) of
           None \<Rightarrow> failed
         | Some statusCode \<Rightarrow> if statusCode \<noteq> 200 then failed else f)"

definition RegisterResponse_onTimeout :: "RegisterResponse \<Rightarrow> Face \<Rightarrow> Face" where
  "RegisterResponse_onTimeout r f =
     (case response_onRegisterFailed r of
        Some g \<Rightarrow> f\<lparr>calls := calls f @ [Call_onRegisterFailed g (response_prefix r)]\<rparr>
      | None \<Rightarrow> f)"

subsection \<open>expressInterestHelper\<close>

text \<open>
  \<^verbatim>\<open>pitEntry.onTimeout(pitEntry.interest)\<close>: the call is logged; a function of the
  application runs outside the Face, a bound RegisterResponse method runs here. The bound
  \<^verbatim>\<open>onData\<close> of a RegisterResponse, called with the Interest alone, finds its
  \<^verbatim>\<open>responseData\<close> undefined: reading the content throws inside the \<^verbatim>\<open>try\<close> block,
  and the \<^verbatim>\<open>catch\<close> block calls \<^verbatim>\<open>onRegisterFailed(prefix)\<close> if it is set, which is
  what \<^verbatim>\<open>onTimeout\<close> does.
\<close>

definition call_onTimeout :: "Face \<Rightarrow> PendingInterest \<Rightarrow> handler \<Rightarrow> Face" where
  "call_onTimeout f pitEntry h =
     (let f1 = f\<lparr>calls := calls f @ [Call_onTimeout pitEntry]\<rparr> in
      case h of
        AppCallback _ \<Rightarrow> f1
      | EmptyFunction \<Rightarrow> f1
      | Bound_onData r \<Rightarrow> RegisterResponse_onTimeout r f1
      | Bound_onTimeout r \<Rightarrow> RegisterResponse_onTimeout r f1)"

text \<open>
  The closure \<^verbatim>\<open>timeoutCallback\<close> for the captured entry: remove the entry from the PIT
  if it is still there, then call its \<^verbatim>\<open>onTimeout\<close> if that is set.
\<close>

definition timeoutCallback :: "PendingInterest \<Rightarrow> Face \<Rightarrow> Face" where
  "timeoutCallback pitEntry f =
     (let f1 = (case indexOf (pendingInterestTable f) pitEntry of
                  Some index \<Rightarrow> f\<lparr>pendingInterestTable := splice1 index (pendingInterestTable f)\<rparr>
                | None \<Rightarrow> f)
      in case onTimeout pitEntry of
           None \<Rightarrow> f1
         | Some h \<Rightarrow> call_onTimeout f1 pitEntry h)"

text \<open>
  \<^verbatim>\<open>interest.getInterestLifetimeMilliseconds() || 4000\<close>: an unset lifetime and a
  lifetime of 0 are both falsy.
\<close>

definition timeoutMilliseconds :: "Interest \<Rightarrow> nat" where
  "timeoutMilliseconds i =
     (case interestLifetimeMilliseconds i of
        None \<Rightarrow> 4000
      | Some ms \<Rightarrow> if ms = 0 then 4000 else ms)"

text \<open>
  \<^verbatim>\<open>this.pitRemoveRequests.indexOf(pendingInterestId)\<close>: the table holds numbers only,
  so a null id is never found.
\<close>

definition removeRequestIndex :: "Face \<Rightarrow> nat option \<Rightarrow> nat option" where
  "removeRequestIndex f pid =
     (case pid of None \<Rightarrow> None | Some n \<Rightarrow> indexOf (pitRemoveRequests f) n)"

text \<open>
  A thrown Error is the \<open>Inl\<close> result; it is thrown before the Face is touched, so the
  caller's Face is the state after the throw.
\<close>

definition expressInterestHelper ::
  "Library \<Rightarrow> Face \<Rightarrow> nat option \<Rightarrow> Interest \<Rightarrow> handler \<Rightarrow> handler option
     \<Rightarrow> error + Face" where
  "expressInterestHelper L f pid i onD onT =
     (let binaryInterest = wireEncode L i in
      if length binaryInterest > getMaxNdnPacketSize then Inl EncodedTooLarge
      else
        let f1 =
          (case removeRequestIndex f pid of
             Some idx \<Rightarrow> f\<lparr>pitRemoveRequests := splice1 idx (pitRemoveRequests f)\<rparr>
           | None \<Rightarrow>
               let pitEntry = \<lparr> pendingInterestId = pid, interest = i, onData = onD,
                                onTimeout = onT, timerID = nextTimerID f \<rparr>
               in f\<lparr>pendingInterestTable := pendingInterestTable f @ [pitEntry],
                     timers := timers f @ [(nextTimerID f, timeoutMilliseconds i, pitEntry)],
                     nextTimerID := Suc (nextTimerID f)\<rparr>)
        in if \<not> match timeoutPrefix (interestName i)
           then Inr (transport_send binaryInterest f1)
           else Inr f1)"

text \<open>
  A timer set by \<^verbatim>\<open>setTimeout\<close> fires at most once, and only while it has not been
  cleared: firing takes it out of the set timers and runs the closure.
\<close>

definition timerFires :: "nat \<Rightarrow> Face \<Rightarrow> Face" where
  "timerFires h f =
     (case find (\<lambda>t. fst t = h) (timers f) of
        None \<Rightarrow> f
      | Some t \<Rightarrow> timeoutCallback (snd (snd t)) (clearTimeout h f))"

subsection \<open>removePendingInterest\<close>

text \<open>
  The loop \<^verbatim>\<open>for (i = length - 1; i >= 0; --i)\<close>; the first argument is \<open>i + 1\<close>, the
  last one is \<^verbatim>\<open>count\<close>.
\<close>

fun removePendingInterest_loop :: "nat \<Rightarrow> nat \<Rightarrow> Face \<Rightarrow> nat \<Rightarrow> Face \<times> nat" where
  "removePendingInterest_loop 0 pid f count = (f, count)"
| "removePendingInterest_loop (Suc i) pid f count =
     (let entry = pendingInterestTable f ! i in
      if pendingInterestId entry = Some pid
      then removePendingInterest_loop i pid
             ((clearTimeout (timerID entry) f)
                \<lparr>pendingInterestTable := splice1 i (pendingInterestTable f)\<rparr>)
             (Suc count)
      else removePendingInterest_loop i pid f count)"

definition removePendingInterest :: "nat option \<Rightarrow> Face \<Rightarrow> Face" where
  "removePendingInterest pendingInterestId' f =
     (case pendingInterestId' of
        None \<Rightarrow> f
      | Some pid \<Rightarrow>
          (case removePendingInterest_loop (length (pendingInterestTable f)) pid f 0 of
             (f1, count) \<Rightarrow>
               if count = 0 then
                 (if indexOf (pitRemoveRequests f1) pid = None
                  then f1\<lparr>pitRemoveRequests := pitRemoveRequests f1 @ [pid]\<rparr>
                  else f1)
               else f1))"

subsection \<open>Receiving Data and Interests\<close>

text \<open>
  The loop of \<^verbatim>\<open>extractEntriesForExpressedInterest\<close>, backwards through the table; the
  third argument is \<open>i + 1\<close>, the last one is \<^verbatim>\<open>result\<close>.
\<close>

fun extractEntries_loop ::
  "Library \<Rightarrow> name \<Rightarrow> nat \<Rightarrow> Face \<Rightarrow> PendingInterest list \<Rightarrow> Face \<times> PendingInterest list" where
  "extractEntries_loop L n 0 f result = (f, result)"
| "extractEntries_loop L n (Suc i) f result =
     (let entry = pendingInterestTable f ! i in
      if matchesName L (interest entry) n
      then extractEntries_loop L n i
             ((clearTimeout (timerID entry) f)
                \<lparr>pendingInterestTable := splice1 i (pendingInterestTable f)\<rparr>)
             (result @ [entry])
      else extractEntries_loop L n i f result)"

definition extractEntriesForExpressedInterest ::
  "Library \<Rightarrow> name \<Rightarrow> Face \<Rightarrow> Face \<times> PendingInterest list" where
  "extractEntriesForExpressedInterest L n f =
     extractEntries_loop L n (length (pendingInterestTable f)) f []"

text \<open>
  \<^verbatim>\<open>pendingInterest.onData(pendingInterest.interest, data)\<close>: the call is logged; a
  function of the application runs outside the Face, a bound RegisterResponse method runs
  here.
\<close>

definition call_onData :: "Library \<Rightarrow> Data \<Rightarrow> Face \<Rightarrow> PendingInterest \<Rightarrow> Face" where
  "call_onData L d f pendingInterest =
     (let f1 = f\<lparr>calls := calls f @ [Call_onData pendingInterest d]\<rparr> in
      case onData pendingInterest of
        AppCallback _ \<Rightarrow> f1
      | EmptyFunction \<Rightarrow> f1
      | Bound_onData r \<Rightarrow> RegisterResponse_onData L r d f1
      | Bound_onTimeout r \<Rightarrow> RegisterResponse_onTimeout r f1)"

text \<open>The branch of \<^verbatim>\<open>onReceivedElement\<close> for a decoded Data packet.\<close>

definition onReceivedData :: "Library \<Rightarrow> Data \<Rightarrow> Face \<Rightarrow> Face" where
  "onReceivedData L d f =
     (case extractEntriesForExpressedInterest L (dataName d) f of
        (f1, pendingInterests) \<Rightarrow> foldl (call_onData L d) f1 pendingInterests)"

text \<open>
  The branch for a decoded Interest: every matching filter entry, in table order. Calling an
  \<^verbatim>\<open>onInterest\<close> that is null throws a TypeError, which ends the loop.
\<close>

fun onReceivedInterest_loop ::
  "Library \<Rightarrow> Interest \<Rightarrow> InterestFilterEntry list \<Rightarrow> Face \<Rightarrow> Face \<times> error option" where
  "onReceivedInterest_loop L i [] f = (f, None)"
| "onReceivedInterest_loop L i (entry # rest) f =
     (if doesMatch L (filter' entry) (interestName i)
      then (case onInterest entry of
              None \<Rightarrow> (f, Some TypeError)
            | Some _ \<Rightarrow> onReceivedInterest_loop L i rest
                          (f\<lparr>calls := calls f @ [Call_onInterest entry i]\<rparr>))
      else onReceivedInterest_loop L i rest f)"

text \<open>An element as the TLV decoder classifies it.\<close>

datatype element = Element_Interest Interest | Element_Data Data | Element_other

definition onReceivedElement :: "Library \<Rightarrow> element \<Rightarrow> Face \<Rightarrow> Face \<times> error option" where
  "onReceivedElement L e f =
     (case e of
        Element_Interest i \<Rightarrow> onReceivedInterest_loop L i (interestFilterTable f) f
      | Element_Data d \<Rightarrow> (onReceivedData L d f, None)
      | Element_other \<Rightarrow> (f, None))"

subsection \<open>reconnectAndExpressInterest and the transport's onOpen\<close>

text \<open>
  \<open>Inl\<close> is a thrown Error; each is thrown before the Face is written. Reading
  \<^verbatim>\<open>this.connectionInfo.equals\<close> on a null connection info is a TypeError.
\<close>

definition reconnectAndExpressInterest ::
  "Library \<Rightarrow> nat option \<Rightarrow> Interest \<Rightarrow> handler \<Rightarrow> handler option \<Rightarrow> Face \<Rightarrow> error + Face" where
  "reconnectAndExpressInterest L pid i onD onT f =
     (case connectionInfo f of
        None \<Rightarrow> Inl TypeError
      | Some ci \<Rightarrow>
          if Some ci \<noteq> transport_connectionInfo (transport f) \<or> readyStatus f = UNOPEN
          then Inr (transport_connect ci
                 (f\<lparr>readyStatus := OPEN_REQUESTED,
                    onConnectedCallbacks := onConnectedCallbacks f
                       @ [Deferred_expressInterestHelper pid i onD onT]\<rparr>))
          else if readyStatus f = OPEN_REQUESTED
          then Inr (f\<lparr>onConnectedCallbacks := onConnectedCallbacks f
                         @ [Deferred_expressInterestHelper pid i onD onT]\<rparr>)
          else if readyStatus f = OPENED
          then expressInterestHelper L f pid i onD onT
          else Inl ConnectionNotOpened)"

text \<open>
  The loop of the onOpen closure: shift each queued function and call it, ignoring an
  exception. The queued functions do not push to the queue, so the loop runs over the queue
  as it stands.
\<close>

fun runOnConnectedCallbacks :: "Library \<Rightarrow> deferred list \<Rightarrow> Face \<Rightarrow> Face" where
  "runOnConnectedCallbacks L [] f = f\<lparr>onConnectedCallbacks := []\<rparr>"
| "runOnConnectedCallbacks L (Deferred_expressInterestHelper pid i onD onT # rest) f =
     (let f0 = f\<lparr>onConnectedCallbacks := rest\<rparr> in
      case expressInterestHelper L f0 pid i onD onT of
        Inl ex \<Rightarrow> runOnConnectedCallbacks L rest f0
      | Inr f1 \<Rightarrow> runOnConnectedCallbacks L rest f1)"

definition transport_onOpen :: "Library \<Rightarrow> Face \<Rightarrow> Face" where
  "transport_onOpen L f =
     (let f1 = runOnConnectedCallbacks L (onConnectedCallbacks f) (f\<lparr>readyStatus := OPENED\<rparr>)
      in f1\<lparr>calls := calls f1 @ [Call_onopen]\<rparr>)"

subsection \<open>setInterestFilter and nfdRegisterPrefix\<close>

text \<open>The argument is an InterestFilter (\<open>Inl\<close>) or a prefix Name (\<open>Inr\<close>).\<close>

definition setInterestFilter ::
  "InterestFilter + name \<Rightarrow> nat option \<Rightarrow> Face \<Rightarrow> nat \<times> Face" where
  "setInterestFilter filterOrPrefix onI f =
     (let flt = (case filterOrPrefix of
                   Inl x \<Rightarrow> x
                 | Inr p \<Rightarrow> \<lparr> filterPrefix = p, regexFilter = None \<rparr>)
      in case getNextEntryId f of
           (interestFilterId', f1) \<Rightarrow>
             (interestFilterId',
              f1\<lparr>interestFilterTable := interestFilterTable f1
                   @ [\<lparr> interestFilterId = interestFilterId', filter' = flt, onInterest = onI \<rparr>]\<rparr>))"

text \<open>
  \<^verbatim>\<open>Face.prototype.isLocal\<close>: without a connection info the answer is \<^verbatim>\<open>false\<close>,
  otherwise the transport decides.
\<close>

definition isLocal :: "Library \<Rightarrow> Face \<Rightarrow> string + bool" where
  "isLocal L f =
     (case connectionInfo f of None \<Rightarrow> Inr False | Some ci \<Rightarrow> transport_isLocal L ci)"

text \<open>
  The command Interest that \<^verbatim>\<open>onIsLocalResult\<close> builds before it is signed; the
  selectors of \<^verbatim>\<open>new Interest()\<close> are unset.
\<close>

definition commandInterest :: "Library \<Rightarrow> bool \<Rightarrow> name \<Rightarrow> nat \<Rightarrow> Interest" where
  "commandInterest L local p flags =
     \<lparr> interestName =
         (if local then [''localhost'', ''nfd'', ''rib'', ''register'']
          else [''localhop'', ''nfd'', ''rib'', ''register''])
         @ [controlParameters_wireEncode L p flags],
       childSelector = None,
       mustBeFresh = False,
       interestLifetimeMilliseconds = Some (if local then 2000 else 4000) \<rparr>"

text \<open>
  The result is the Face as the call leaves it and the Error thrown, if any: the two
  configuration Errors are thrown before the Face is written, an Error of
  \<^verbatim>\<open>reconnectAndExpressInterest\<close> after the tables were written. The callbacks of
  \<^verbatim>\<open>isLocal\<close> and of the command-Interest generator run as soon as their results are
  known.
\<close>

definition nfdRegisterPrefix ::
  "Library \<Rightarrow> nat \<Rightarrow> name \<Rightarrow> nat option \<Rightarrow> nat \<Rightarrow> nat option \<Rightarrow> nat option \<Rightarrow> name \<Rightarrow> Face
     \<Rightarrow> Face \<times> error option" where
  "nfdRegisterPrefix L registeredPrefixId' p onI flags onRegisterFailed keyChain certificateName f =
     (case indexOf (registeredPrefixRemoveRequests f) registeredPrefixId' of
        Some idx \<Rightarrow>
          (f\<lparr>registeredPrefixRemoveRequests := splice1 idx (registeredPrefixRemoveRequests f)\<rparr>,
           None)
      | None \<Rightarrow>
          (case keyChain of
             None \<Rightarrow> (f, Some KeyChainNotSet)
           | Some kc \<Rightarrow>
               if length certificateName = 0 then (f, Some CertificateNameNotSet)
               else
                 (case isLocal L f of
                    Inl message \<Rightarrow>
                      (case onRegisterFailed of
                         Some g \<Rightarrow> (f\<lparr>calls := calls f @ [Call_onRegisterFailed g p]\<rparr>, None)
                       | None \<Rightarrow> (f, None))
                  | Inr local \<Rightarrow>
                      let signed = generate L (commandInterest L local p flags) kc certificateName;
                          f1 =
                            (if registeredPrefixId' \<noteq> 0 then
                               (case (case onI of
                                        Some _ \<Rightarrow>
                                          setInterestFilter
                                            (Inl \<lparr> filterPrefix = p, regexFilter = None \<rparr>) onI f
                                      | None \<Rightarrow> (0, f)) of
                                  (interestFilterId', f') \<Rightarrow>
                                    f'\<lparr>registeredPrefixTable := registeredPrefixTable f'
                                         @ [\<lparr> registeredPrefixId = registeredPrefixId',
                                              prefix = p,
                                              relatedInterestFilterId = interestFilterId' \<rparr>]\<rparr>)
                             else f);
                          response = \<lparr> response_prefix = p, response_onInterest = onI,
                                       response_onRegisterFailed = onRegisterFailed,
                                       response_flags = flags \<rparr>
                      in (case reconnectAndExpressInterest L None signed
                                 (Bound_onData response) (Some (Bound_onTimeout response)) f1 of
                            Inl ex \<Rightarrow> (f1, Some ex)
                          | Inr f2 \<Rightarrow> (f2, None)))))"

subsection \<open>Runs of a Face\<close>

text \<open>
  What can happen to a Face, one event at a time: an Interest is expressed (the work of
  \<^verbatim>\<open>expressInterest\<close> once the id is allocated), the transport reports that it is open,
  a Data packet arrives, a timer that is set fires, the application removes a pending
  Interest, the application closes the Face. An Error thrown by an event leaves the Face
  as it was.
\<close>

datatype face_event =
    Express "nat option" Interest handler "handler option"
  | Opens
  | Receives Data
  | Fires nat
  | Removes "nat option"
  | Closes

definition face_step :: "Library \<Rightarrow> Face \<Rightarrow> face_event \<Rightarrow> Face" where
  "face_step L f ev =
     (case ev of
        Express pid i onD onT \<Rightarrow>
          (case reconnectAndExpressInterest L pid i onD onT f of Inl ex \<Rightarrow> f | Inr f' \<Rightarrow> f')
      | Opens \<Rightarrow> transport_onOpen L f
      | Receives d \<Rightarrow> onReceivedData L d f
      | Fires h \<Rightarrow> timerFires h f
      | Removes pid \<Rightarrow> removePendingInterest pid f
      | Closes \<Rightarrow> close f)"

definition face_run :: "Library \<Rightarrow> Face \<Rightarrow> face_event list \<Rightarrow> Face" where
  "face_run L f evs = foldl (face_step L) f evs"

text \<open>The PIT entry whose \<^verbatim>\<open>onData\<close> or \<^verbatim>\<open>onTimeout\<close> a logged call invoked.\<close>

fun callee :: "call \<Rightarrow> PendingInterest option" where
  "callee (Call_onData e d) = Some e"
| "callee (Call_onTimeout e) = Some e"
| "callee c = None"

definition callsFor :: "PendingInterest \<Rightarrow> call list \<Rightarrow> call list" where
  "callsFor e cs = filter (\<lambda>c. callee c = Some e) cs"

subsection \<open>A library instance for examples\<close>

text \<open>
  A stand-in for the parts outside the sources, used where a property is evaluated on a
  concrete input: an Interest is encoded as its name's bytes, an Interest matches a name it
  is a prefix of, a StatusCode is read as a big-endian number, and the generator appends
  four components.
\<close>

definition exampleLibrary :: Library where
  "exampleLibrary =
     \<lparr> wireEncode = (\<lambda>i. concat (interestName i)),
       matchesName = (\<lambda>i n. match (interestName i) n),
       doesMatch = (\<lambda>flt n. match (filterPrefix flt) n),
       readStatusCode = (\<lambda>b. if b = [] then None else Some (bigEndianToUnsignedInt b)),
       controlParameters_wireEncode = (\<lambda>p flags. concat p),
       generate = (\<lambda>i kc cert. i\<lparr>interestName := interestName i
                      @ [''timestamp'', ''nonce'', ''info'', ''value'']\<rparr>),
       transport_isLocal = (\<lambda>ci. Inr (ci = ''localhost'')) \<rparr>"

definition exampleInterest :: "name \<Rightarrow> Interest" where
  "exampleInterest n =
     \<lparr> interestName = n, childSelector = None, mustBeFresh = False,
       interestLifetimeMilliseconds = Some 100 \<rparr>"

text \<open>A Face whose transport is connected to \<^verbatim>\<open>localhost\<close> and open.\<close>

definition openedFace :: Face where
  "openedFace =
     (transport_connect ''localhost'' (newFace (Some ''localhost'')))\<lparr>readyStatus := OPENED\<rparr>"

section \<open>The segment fetcher\<close>

datatype ErrorCode = INTEREST_TIMEOUT | DATA_HAS_NO_SEGMENT | SEGMENT_VERIFICATION_FAILED

text \<open>
  What a SegmentFetcher does to the outside: it calls \<^verbatim>\<open>face.expressInterest\<close> with an
  Interest, \<^verbatim>\<open>onComplete\<close> with the content or \<^verbatim>\<open>onError\<close> with an error code.
\<close>

datatype fetcher_action =
    Fetcher_expressInterest Interest
  | Fetcher_onComplete bytes
  | Fetcher_onError ErrorCode

text \<open>
  \<^verbatim>\<open>contentParts\<close> holds what \<^verbatim>\<open>data.getContent().buf()\<close> returned for each saved
  segment, \<open>None\<close> for the null buffer of a null Blob. \<^verbatim>\<open>actions\<close> is the log of the
  calls made so far.
\<close>

record SegmentFetcher =
  contentParts :: "bytes option list"
  actions :: "fetcher_action list"

definition newSegmentFetcher :: SegmentFetcher where
  "newSegmentFetcher = \<lparr> contentParts = [], actions = [] \<rparr>"

text \<open>\<^verbatim>\<open>Buffer.concat\<close> throws a TypeError on an element that is not a buffer.\<close>

definition Buffer_concat :: "bytes option list \<Rightarrow> error + bytes" where
  "Buffer_concat parts =
     (if None \<in> set parts then Inl TypeError else Inr (concat (map the parts)))"

definition fetchFirstSegment :: "Interest \<Rightarrow> SegmentFetcher \<Rightarrow> SegmentFetcher" where
  "fetchFirstSegment baseInterest s =
     s\<lparr>actions := actions s
          @ [Fetcher_expressInterest (baseInterest\<lparr>childSelector := Some 1, mustBeFresh := True\<rparr>)]\<rparr>"

text \<open>\<^verbatim>\<open>dataName.getPrefix(-1)\<close> drops the last component.\<close>

definition fetchNextSegment :: "Interest \<Rightarrow> name \<Rightarrow> nat \<Rightarrow> SegmentFetcher \<Rightarrow> SegmentFetcher" where
  "fetchNextSegment originalInterest dataName' segment s =
     s\<lparr>actions := actions s
          @ [Fetcher_expressInterest
               (originalInterest\<lparr>mustBeFresh := False,
                                 interestName := appendSegment (butlast dataName') segment\<rparr>)]\<rparr>"

definition endsWithSegmentNumber :: "name \<Rightarrow> bool" where
  "endsWithSegmentNumber n =
     (length n \<ge> 1 \<and> length (last n) \<ge> 1 \<and> hd (last n) = CHR 0x00)"

definition fetcher_onError :: "ErrorCode \<Rightarrow> SegmentFetcher \<Rightarrow> SegmentFetcher" where
  "fetcher_onError code s = s\<lparr>actions := actions s @ [Fetcher_onError code]\<rparr>"

text \<open>
  \<^verbatim>\<open>SegmentFetcher.prototype.onData\<close>, with the application's \<^verbatim>\<open>verifySegment\<close> as a
  parameter. The result is the fetcher as the call leaves it and the Error thrown, if any
  (only \<^verbatim>\<open>Buffer.concat\<close> can throw, after the content was saved).
\<close>

definition fetcher_onData ::
  "(Data \<Rightarrow> bool) \<Rightarrow> Interest \<Rightarrow> Data \<Rightarrow> SegmentFetcher \<Rightarrow> SegmentFetcher \<times> error option" where
  "fetcher_onData verifySegment originalInterest d s =
     (if \<not> verifySegment d then (fetcher_onError SEGMENT_VERIFICATION_FAILED s, None)
      else if \<not> endsWithSegmentNumber (dataName d)
      then (fetcher_onError DATA_HAS_NO_SEGMENT s, None)
      else
        (case toSegment (last (dataName d)) of
           None \<Rightarrow> (fetcher_onError DATA_HAS_NO_SEGMENT s, None)
         | Some currentSegment \<Rightarrow>
             let expectedSegmentNumber = length (contentParts s) in
             if currentSegment \<noteq> expectedSegmentNumber
             then (fetchNextSegment originalInterest (dataName d) expectedSegmentNumber s, None)
             else
               let s1 = s\<lparr>contentParts := contentParts s @ [content d]\<rparr>;
                   next = (fetchNextSegment originalInterest (dataName d)
                             (expectedSegmentNumber + 1) s1, None)
               in if length (finalBlockId d) > 0
                  then (case toSegment (finalBlockId d) of
                          None \<Rightarrow> (fetcher_onError DATA_HAS_NO_SEGMENT s1, None)
                        | Some finalSegmentNumber \<Rightarrow>
                            if currentSegment = finalSegmentNumber
                            then (case Buffer_concat (contentParts s1) of
                                    Inl ex \<Rightarrow> (s1, Some ex)
                                  | Inr content' \<Rightarrow>
                                      (s1\<lparr>actions := actions s1 @ [Fetcher_onComplete content']\<rparr>,
                                       None))
                            else next)
                  else next))"

definition fetcher_onTimeout :: "Interest \<Rightarrow> SegmentFetcher \<Rightarrow> SegmentFetcher" where
  "fetcher_onTimeout i s = fetcher_onError INTEREST_TIMEOUT s"

text \<open>
  A run of a fetcher: the Data packets and timeouts the Face delivers to it, in order, each
  with the Interest it answers. An Error thrown by a call leaves the fetcher as the call
  left it.
\<close>

datatype fetcher_event = Fetched Interest Data | TimedOut Interest

definition fetcher_step :: "(Data \<Rightarrow> bool) \<Rightarrow> SegmentFetcher \<Rightarrow> fetcher_event \<Rightarrow> SegmentFetcher" where
  "fetcher_step verifySegment s ev =
     (case ev of
        Fetched i d \<Rightarrow> fst (fetcher_onData verifySegment i d s)
      | TimedOut i \<Rightarrow> fetcher_onTimeout i s)"

definition fetcher_run ::
  "(Data \<Rightarrow> bool) \<Rightarrow> SegmentFetcher \<Rightarrow> fetcher_event list \<Rightarrow> SegmentFetcher" where
  "fetcher_run verifySegment s evs = foldl (fetcher_step verifySegment) s evs"

text \<open>The Data packets of a run, in order of arrival.\<close>

fun arrivals :: "fetcher_event list \<Rightarrow> Data list" where
  "arrivals [] = []"
| "arrivals (Fetched i d # evs) = d # arrivals evs"
| "arrivals (TimedOut i # evs) = arrivals evs"

text \<open>
  A Data packet passes the checks of \<^verbatim>\<open>onData\<close> for a fetcher that holds \<open>k\<close> parts:
  it is verified, its name ends with a segment number, and that number is \<open>k\<close>.
\<close>

definition accepts :: "(Data \<Rightarrow> bool) \<Rightarrow> nat \<Rightarrow> Data \<Rightarrow> bool" where
  "accepts verifySegment k d \<longleftrightarrow>
     verifySegment d \<and> endsWithSegmentNumber (dataName d)
     \<and> toSegment (last (dataName d)) = Some k"

text \<open>
  The Data packets of a run that pass these checks in turn, for a fetcher that holds
  \<open>k\<close> parts before the run.
\<close>

fun saved :: "(Data \<Rightarrow> bool) \<Rightarrow> nat \<Rightarrow> fetcher_event list \<Rightarrow> Data list" where
  "saved verifySegment k [] = []"
| "saved verifySegment k (TimedOut i # evs) = saved verifySegment k evs"
| "saved verifySegment k (Fetched i d # evs) =
     (if accepts verifySegment k d then d # saved verifySegment (Suc k) evs
      else saved verifySegment k evs)"

text \<open>
  What the claim on the segment fetcher says of a delivered blob, given the Data packets
  that arrived: some of them, in their order of arrival, carry the segment numbers 0, 1, ...
  without a gap or a repetition, the last of them names its own segment as the final block,
  and the blob is the concatenation of their contents.
\<close>

definition delivered :: "Data list \<Rightarrow> bytes \<Rightarrow> bool" where
  "delivered D blob \<longleftrightarrow>
     (\<exists>ds. subseq ds D \<and> ds \<noteq> []
        \<and> map (\<lambda>d. toSegment (last (dataName d))) ds = map Some [0..<length ds]
        \<and> toSegment (finalBlockId (last ds)) = Some (length ds - 1)
        \<and> (\<forall>d\<in>set ds. content d \<noteq> None)
        \<and> blob = concat (map (\<lambda>d. the (content d)) ds))"

section \<open>The pipelined fetcher\<close>

text \<open>
  \<^verbatim>\<open>ContentContext\<close> of \<^verbatim>\<open>test-throughput-ws-pipeline.html\<close>. The field \<^verbatim>\<open>expressed\<close>
  is the log of the names given to \<^verbatim>\<open>this.expressInterest\<close>; what the handlers write to
  the page is left out.
\<close>

record ContentContext =
  totalBlocks :: nat
  ooo_count :: nat
  pkt_recved :: nat
  timed_out :: nat
  interest_sent :: nat
  dups :: nat
  max_window :: nat
  max_retrans :: nat
  snd_una :: nat
  snd_wnd :: nat
  snd_nxt :: nat
  ooo_table_size :: nat
  ooo_table :: "nat option list"
  terminated :: bool
  expressed :: "name list"

text \<open>The state the constructor leaves.\<close>

definition newContentContext :: ContentContext where
  "newContentContext =
     \<lparr> totalBlocks = 0, ooo_count = 0, pkt_recved = 0, timed_out = 0, interest_sent = 1,
       dups = 0, max_window = 32, max_retrans = 5, snd_una = 0, snd_wnd = 1, snd_nxt = 1,
       ooo_table_size = 128, ooo_table = [], terminated = False, expressed = [] \<rparr>"

definition context_expressInterest :: "name \<Rightarrow> ContentContext \<Rightarrow> ContentContext" where
  "context_expressInterest n c = c\<lparr>expressed := expressed c @ [n]\<rparr>"

definition context_onTimeout :: "Interest \<Rightarrow> ContentContext \<Rightarrow> ContentContext" where
  "context_onTimeout i c =
     (let c1 = c\<lparr>pkt_recved := pkt_recved c + 1\<rparr> in
      if terminated c1 = False
      then (let c2 = c1\<lparr>timed_out := timed_out c1 + 1\<rparr>;
                c3 = c2\<lparr>snd_wnd := 1\<rparr>;
                c4 = context_expressInterest (interestName i) c3
            in c4\<lparr>interest_sent := interest_sent c4 + 1\<rparr>)
      else c1)"

text \<open>The number of marked slots, which the first loop of \<^verbatim>\<open>onData\<close> brings down.\<close>

definition marked :: "nat option list \<Rightarrow> nat" where
  "marked xs = length (filter (\<lambda>x. x \<noteq> None) xs)"

text \<open>
  The loop \<^verbatim>\<open>while (this.ooo_table[slot] != undefined)\<close> of \<^verbatim>\<open>onData\<close>: clear the
  slot of \<^verbatim>\<open>snd_una\<close> and move on until a slot is empty.
\<close>

function slide :: "ContentContext \<Rightarrow> ContentContext" where
  "slide c =
     (if array_get (ooo_table c) (snd_una c mod ooo_table_size c) \<noteq> None
      then slide (c\<lparr>ooo_table := array_set (ooo_table c) (snd_una c mod ooo_table_size c) None,
                    snd_una := snd_una c + 1,
                    totalBlocks := totalBlocks c + 1\<rparr>)
      else c)"
  by pat_completeness auto
termination
proof (relation "measure (\<lambda>c. marked (ooo_table c))")
  show "wf (measure (\<lambda>c. marked (ooo_table c)))" by simp
next
  fix c :: ContentContext
  let ?xs = "ooo_table c" and ?i = "snd_una c mod ooo_table_size c"
  assume "array_get ?xs ?i \<noteq> None"
  then have i: "?i < length ?xs" and x: "?xs ! ?i \<noteq> None"
    by (auto simp: array_get_def split: if_splits)
  have xs: "?xs = take ?i ?xs @ ?xs ! ?i # drop (Suc ?i) ?xs"
    using i by (simp add: id_take_nth_drop [symmetric])
  have upd: "?xs[?i := None] = take ?i ?xs @ None # drop (Suc ?i) ?xs"
    using i by (simp add: upd_conv_take_nth_drop)
  have "marked (?xs[?i := None]) < marked (take ?i ?xs @ ?xs ! ?i # drop (Suc ?i) ?xs)"
    unfolding upd using x by (simp add: marked_def)
  then have "marked (array_set ?xs ?i None) < marked ?xs"
    using i xs by (simp add: array_set_def)
  then show "(c\<lparr>ooo_table := array_set ?xs ?i None, snd_una := snd_una c + 1,
                 totalBlocks := totalBlocks c + 1\<rparr>, c) \<in> measure (\<lambda>c. marked (ooo_table c))"
    by simp
qed

text \<open>
  The loop \<^verbatim>\<open>while (this.snd_nxt - this.snd_una < this.snd_wnd)\<close>: express an Interest
  for segment \<^verbatim>\<open>snd_nxt\<close> under the name of the Data without its last component. The
  difference is taken in the integers, as the JavaScript numbers take it.
\<close>

function sendNext :: "name \<Rightarrow> ContentContext \<Rightarrow> ContentContext" where
  "sendNext nextNameComponents c =
     (if int (snd_nxt c) - int (snd_una c) < int (snd_wnd c)
      then sendNext nextNameComponents
             ((context_expressInterest (nextNameComponents @ [segmentComponent (snd_nxt c)]) c)
                \<lparr>interest_sent := interest_sent c + 1, snd_nxt := snd_nxt c + 1\<rparr>)
      else c)"
  by pat_completeness auto
termination
  by (relation "measure (\<lambda>(n, c). nat (int (snd_una c) + int (snd_wnd c) - int (snd_nxt c)))")
     (auto simp: context_expressInterest_def)

text \<open>
  \<^verbatim>\<open>ContentContext.prototype.onData\<close>. The result is the context as the call leaves it
  and the Error thrown, if any: \<^verbatim>\<open>get(-1)\<close> of an empty name is undefined (TypeError),
  and \<^verbatim>\<open>toSegment\<close> throws on a component without the marker.
\<close>

definition context_onData :: "Interest \<Rightarrow> Data \<Rightarrow> ContentContext \<Rightarrow> ContentContext \<times> error option" where
  "context_onData i d c =
     (let c1 = c\<lparr>pkt_recved := pkt_recved c + 1\<rparr> in
      if content d = None then (c1, None)
      else if dataName d = [] then (c1, Some TypeError)
      else
        (case toSegment (last (dataName d)) of
           None \<Rightarrow> (c1, Some NoSegmentMarker)
         | Some segmentNumber \<Rightarrow>
             if length (finalBlockId d) > 0 \<and> toSegment (finalBlockId d) = None
             then (c1, Some NoSegmentMarker)
             else
               let finalSegmentNumber =
                     (if length (finalBlockId d) > 0 then toSegment (finalBlockId d) else None)
               in
               if segmentNumber \<noteq> snd_una c1 then
                 (let c2 = c1\<lparr>ooo_count := ooo_count c1 + 1\<rparr> in
                  if segmentNumber \<ge> snd_nxt c2 \<or> segmentNumber < snd_una c2 then (c2, None)
                  else (c2\<lparr>ooo_table := array_set (ooo_table c2)
                                           (segmentNumber mod ooo_table_size c2)
                                           (Some segmentNumber)\<rparr>,
                        None))
               else
                 (let c2 = slide (c1\<lparr>snd_una := snd_una c1 + 1,
                                      totalBlocks := totalBlocks c1 + 1\<rparr>)
                  in if (case finalSegmentNumber of
                           None \<Rightarrow> False
                         | Some final \<Rightarrow> snd_una c2 = final + 1)
                     then (c2\<lparr>terminated := True\<rparr>, None)
                     else
                       (let c3 = (if snd_wnd c2 < max_window c2
                                  then c2\<lparr>snd_wnd := snd_wnd c2 + 1\<rparr> else c2)
                        in (sendNext (butlast (dataName d)) c3, None)))))"

text \<open>
  A run of a context: the Data packets and timeouts the Face delivers to it, each with the
  Interest it answers. An Error thrown by \<^verbatim>\<open>onData\<close> leaves the context as the call left
  it.
\<close>

datatype context_event = Arrives Interest Data | Expires Interest

definition context_step :: "ContentContext \<Rightarrow> context_event \<Rightarrow> ContentContext" where
  "context_step c ev =
     (case ev of
        Arrives i d \<Rightarrow> fst (context_onData i d c)
      | Expires i \<Rightarrow> context_onTimeout i c)"




text \<open>A Data packet for a segment, with content, as a producer names it.\<close>

definition segmentData :: "name \<Rightarrow> nat \<Rightarrow> nat option \<Rightarrow> Data" where
  "segmentData p n final =
     \<lparr> dataName = appendSegment p n, content = Some ''x'',
       finalBlockId = (case final of None \<Rightarrow> [] | Some k \<Rightarrow> segmentComponent k) \<rparr>"

text \<open>The open Face after one Interest \<^verbatim>\<open>/a\<close> was expressed with id 1.\<close>

definition onePending :: Face where
  "onePending =
     face_run exampleLibrary openedFace
       [Express (Some 1) (exampleInterest [''a'']) (AppCallback 1) (Some (AppCallback 2))]"



text \<open>
  A Face that is not connected yet: an Interest with the given name is expressed with id 1
  and queued, the application removes the pending Interest 1, then the transport opens.
\<close>

definition removedBeforeSent :: "name \<Rightarrow> Face" where
  "removedBeforeSent n =
     face_run exampleLibrary (newFace (Some ''localhost''))
       [Express (Some 1) (exampleInterest n) (AppCallback 1) (Some (AppCallback 2)),
        Removes (Some 1),
        Opens]"



text \<open>
  An open Face with command signing info set, after \<^verbatim>\<open>registerPrefix\<close> allocated the
  id 1; the Face after \<^verbatim>\<open>nfdRegisterPrefix\<close> ran for the prefix \<^verbatim>\<open>/app\<close> with an
  \<^verbatim>\<open>onInterest\<close> (label 7) and an \<^verbatim>\<open>onRegisterFailed\<close> (label 9); the forwarder's
  reply with a given StatusCode; and the RegisterResponse of that registration.
\<close>

definition signingFace :: Face where
  "signingFace = openedFace\<lparr>commandKeyChain := Some 1, commandCertificateName := [''cert''],
                            lastEntryId := 1\<rparr>"

definition registering :: Face where
  "registering =
     fst (nfdRegisterPrefix exampleLibrary 1 [''app''] (Some 7) 0 (Some 9)
            (Some 1) [''cert''] signingFace)"




subsection \<open>The invariant of the PIT, the timers and the call log\<close>

text \<open>The PIT entries whose callbacks a call log invoked, in order.\<close>

definition called :: "call list \<Rightarrow> PendingInterest list" where
  "called cs = List.map_filter callee cs"

text \<open>
  What every run keeps true of the PIT \<open>P\<close>, the set timers \<open>T\<close>, the next timer handle
  \<open>n\<close> and the entries \<open>C\<close> whose callbacks were called: the entries of the PIT carry
  distinct handles handed out so far; every timer that is set belongs to an entry of the PIT
  and has its handle; an entry that was called is gone from the PIT, and no entry was
  called twice.
\<close>

definition inv4 ::
  "PendingInterest list \<Rightarrow> (nat \<times> nat \<times> PendingInterest) list \<Rightarrow> nat \<Rightarrow> PendingInterest list \<Rightarrow> bool" where
  "inv4 P T n C \<longleftrightarrow>
     (\<forall>e\<in>set P. timerID e < n) \<and> distinct (map timerID P)
     \<and> (\<forall>t\<in>set T. snd (snd t) \<in> set P \<and> fst t = timerID (snd (snd t)))
     \<and> (\<forall>e\<in>set C. timerID e < n \<and> timerID e \<notin> timerID ` set P)
     \<and> distinct (map timerID C)"

definition pit_inv :: "Face \<Rightarrow> bool" where
  "pit_inv f = inv4 (pendingInterestTable f) (timers f) (nextTimerID f) (called (calls f))"

text \<open>
  An Interest \<^verbatim>\<open>/a\<close> expressed with id 1 as the first of a Face, the PIT entry made for
  it, a Data packet that answers it, and two runs of a Face that is not connected at first:
  in one the Data arrives before the timer fires, in the other after.
\<close>

definition entryA :: PendingInterest where
  "entryA =
     \<lparr> pendingInterestId = Some 1, interest = exampleInterest [''a''], onData = AppCallback 1,
       onTimeout = Some (AppCallback 2), timerID = 0 \<rparr>"

definition dataA :: Data where
  "dataA = \<lparr> dataName = [''a''], content = Some ''x'', finalBlockId = [] \<rparr>"

definition answeredThenFired :: "face_event list" where
  "answeredThenFired =
     [Express (Some 1) (exampleInterest [''a'']) (AppCallback 1) (Some (AppCallback 2)),
      Opens, Receives dataA, Fires 0, Receives dataA]"

definition firedThenAnswered :: "face_event list" where
  "firedThenAnswered =
     [Express (Some 1) (exampleInterest [''a'']) (AppCallback 1) (Some (AppCallback 2)),
      Opens, Fires 0, Receives dataA, Fires 0]"

text \<open>
  A run of a segment fetcher for \<^verbatim>\<open>/x\<close>: the discovery Interest is answered with
  segment 5 of version \<^verbatim>\<open>v1\<close>, then the segments 0, 1 and 2 arrive as asked for, with
  the contents \<^verbatim>\<open>a\<close>, \<^verbatim>\<open>b\<close>, \<^verbatim>\<open>c\<close>; segment 2 is the final block.
\<close>

definition partData :: "nat \<Rightarrow> bytes \<Rightarrow> nat option \<Rightarrow> Data" where
  "partData n c final = (segmentData [''x'', ''v1''] n final)\<lparr>content := Some c\<rparr>"

definition fetchThree :: "fetcher_event list" where
  "fetchThree =
     [Fetched (exampleInterest [''x'']) (partData 5 ''z'' None),
      Fetched (exampleInterest [''x'', ''v1'', segmentComponent 0]) (partData 0 ''a'' (Some 2)),
      Fetched (exampleInterest [''x'', ''v1'', segmentComponent 1]) (partData 1 ''b'' None),
      Fetched (exampleInterest [''x'', ''v1'', segmentComponent 2]) (partData 2 ''c'' (Some 2))]"

subsection \<open>Runs, example states and invariants of the pipelined fetcher\<close>

text \<open>The context after the sliding of an in-order arrival.\<close>

definition slid :: "ContentContext \<Rightarrow> ContentContext" where
  "slid c = slide (c\<lparr>pkt_recved := pkt_recved c + 1, snd_una := snd_una c + 1,
                      totalBlocks := totalBlocks c + 1\<rparr>)"

text \<open>A run of a context over a list of events.\<close>

definition context_run :: "ContentContext \<Rightarrow> context_event list \<Rightarrow> ContentContext" where
  "context_run c evs = foldl context_step c evs"

text \<open>The arrival of the Data of segment \<open>n\<close> of \<^verbatim>\<open>/x\<close>, answering the Interest for it.\<close>

definition arrival :: "nat \<Rightarrow> context_event" where
  "arrival n = Arrives (exampleInterest (appendSegment [''x''] n)) (segmentData [''x''] n None)"

text \<open>
  A context with the Interests for the segments 0 to 4 outstanding, and the same context
  after the segments 1, 2, 3 and 4 arrived ahead of segment 0.
\<close>

definition reorderState :: ContentContext where
  "reorderState = newContentContext\<lparr>snd_nxt := 5, snd_wnd := 5\<rparr>"

definition fourMarked :: ContentContext where
  "fourMarked = context_run reorderState [arrival 1, arrival 2, arrival 3, arrival 4]"





section \<open>Auxiliary facts about the array helpers\<close>

lemma indexOf_None_iff: "indexOf xs x = None \<longleftrightarrow> x \<notin> set xs"
  by (induction xs) auto

lemma indexOf_Some_splice1: "indexOf xs x = Some i \<Longrightarrow> splice1 i xs = remove1 x xs"
proof (induction xs arbitrary: i)
  case Nil
  then show ?case by simp
next
  case (Cons y ys)
  show ?case
  proof (cases "y = x")
    case True
    with Cons.prems show ?thesis by (simp add: splice1_def)
  next
    case False
    with Cons.prems obtain j where j: "indexOf ys x = Some j" "i = Suc j" by auto
    with Cons.IH [of j] False show ?thesis by (simp add: splice1_def)
  qed
qed

lemma take_splice1: "k < length xs \<Longrightarrow> take k (splice1 k xs) = take k xs"
  by (simp add: splice1_def)

lemma drop_splice1: "k < length xs \<Longrightarrow> drop k (splice1 k xs) = drop (Suc k) xs"
  by (simp add: splice1_def)

lemma length_splice1: "k < length xs \<Longrightarrow> length (splice1 k xs) = length xs - 1"
  by (simp add: splice1_def)

section \<open>removePendingInterest as a filter\<close>

text \<open>
  The backwards loop, run over the first \<open>k\<close> entries, keeps the entries with another
  id, clears the timers of the entries it drops and counts them.
\<close>

lemma removePendingInterest_loop_eq:
  "k \<le> length (pendingInterestTable f) \<Longrightarrow>
   removePendingInterest_loop k pid f c =
     (f\<lparr>timers := filter (\<lambda>t. \<forall>e\<in>set (take k (pendingInterestTable f)).
                                pendingInterestId e = Some pid \<longrightarrow> fst t \<noteq> timerID e) (timers f),
        pendingInterestTable :=
          filter (\<lambda>e. pendingInterestId e \<noteq> Some pid) (take k (pendingInterestTable f))
            @ drop k (pendingInterestTable f)\<rparr>,
      c + length (filter (\<lambda>e. pendingInterestId e = Some pid) (take k (pendingInterestTable f))))"
proof (induction k arbitrary: f c)
  case 0
  then show ?case by simp
next
  case (Suc k)
  let ?pit = "pendingInterestTable f"
  from Suc.prems have k: "k < length ?pit" by simp
  have tk: "take (Suc k) ?pit = take k ?pit @ [?pit ! k]"
    using k by (simp add: take_Suc_conv_app_nth)
  show ?case
  proof (cases "pendingInterestId (?pit ! k) = Some pid")
    case True
    let ?f' = "(clearTimeout (timerID (?pit ! k)) f)\<lparr>pendingInterestTable := splice1 k ?pit\<rparr>"
    have len: "k \<le> length (pendingInterestTable ?f')"
      using k by (simp add: length_splice1)
    have P: "(\<lambda>x. fst x \<noteq> timerID (?pit ! k) \<and>
                 (\<forall>e\<in>set (take k ?pit). pendingInterestId e = Some pid \<longrightarrow> fst x \<noteq> timerID e))
           = (\<lambda>t. \<forall>e\<in>set (take (Suc k) ?pit). pendingInterestId e = Some pid \<longrightarrow> fst t \<noteq> timerID e)"
      using True by (auto simp: tk)
    have "removePendingInterest_loop (Suc k) pid f c = removePendingInterest_loop k pid ?f' (Suc c)"
      using True by (simp add: Let_def)
    also have "\<dots> = (?f'\<lparr>timers := filter (\<lambda>t. \<forall>e\<in>set (take k (pendingInterestTable ?f')).
                                pendingInterestId e = Some pid \<longrightarrow> fst t \<noteq> timerID e) (timers ?f'),
        pendingInterestTable :=
          filter (\<lambda>e. pendingInterestId e \<noteq> Some pid) (take k (pendingInterestTable ?f'))
            @ drop k (pendingInterestTable ?f')\<rparr>,
      Suc c + length (filter (\<lambda>e. pendingInterestId e = Some pid) (take k (pendingInterestTable ?f'))))"
      by (rule Suc.IH [OF len])
    also have "\<dots> = (f\<lparr>timers := filter (\<lambda>t. \<forall>e\<in>set (take (Suc k) ?pit).
                                pendingInterestId e = Some pid \<longrightarrow> fst t \<noteq> timerID e) (timers f),
        pendingInterestTable :=
          filter (\<lambda>e. pendingInterestId e \<noteq> Some pid) (take (Suc k) ?pit) @ drop (Suc k) ?pit\<rparr>,
      c + length (filter (\<lambda>e. pendingInterestId e = Some pid) (take (Suc k) ?pit)))"
      unfolding P [symmetric]
      using True k by (simp add: take_splice1 drop_splice1 tk clearTimeout_def
            del: take_Suc_conv_app_nth)
    finally show ?thesis .
  next
    case False
    have P: "(\<lambda>t. \<forall>e\<in>set (take (Suc k) ?pit). pendingInterestId e = Some pid \<longrightarrow> fst t \<noteq> timerID e)
           = (\<lambda>t. \<forall>e\<in>set (take k ?pit). pendingInterestId e = Some pid \<longrightarrow> fst t \<noteq> timerID e)"
      using False by (auto simp: tk)
    from Suc.prems have len: "k \<le> length ?pit" by simp
    show ?thesis
      unfolding P
      using False k Suc.IH [OF len, of c]
      by (simp add: Let_def tk Cons_nth_drop_Suc)
  qed
qed

lemma removePendingInterest_Some:
  "removePendingInterest (Some pid) f =
     (let f1 = f\<lparr>timers := filter (\<lambda>t. \<forall>e\<in>set (pendingInterestTable f).
                                pendingInterestId e = Some pid \<longrightarrow> fst t \<noteq> timerID e) (timers f),
                  pendingInterestTable :=
                    filter (\<lambda>e. pendingInterestId e \<noteq> Some pid) (pendingInterestTable f)\<rparr>
      in if (\<exists>e\<in>set (pendingInterestTable f). pendingInterestId e = Some pid)
            \<or> pid \<in> set (pitRemoveRequests f)
         then f1
         else f1\<lparr>pitRemoveRequests := pitRemoveRequests f @ [pid]\<rparr>)"
proof -
  have len0: "length (filter (\<lambda>e. pendingInterestId e = Some pid) (pendingInterestTable f)) = 0
      \<longleftrightarrow> \<not> (\<exists>e\<in>set (pendingInterestTable f). pendingInterestId e = Some pid)"
    by (auto simp: filter_empty_conv)
  show ?thesis
    using len0
    by (simp add: removePendingInterest_def removePendingInterest_loop_eq Let_def
          indexOf_None_iff)
qed

lemma removePendingInterest_absent:
  assumes "\<forall>e\<in>set (pendingInterestTable f). pendingInterestId e \<noteq> Some pid"
  shows "removePendingInterest (Some pid) f =
           (if pid \<in> set (pitRemoveRequests f) then f
            else f\<lparr>pitRemoveRequests := pitRemoveRequests f @ [pid]\<rparr>)"
proof -
  have "filter (\<lambda>e. pendingInterestId e \<noteq> Some pid) (pendingInterestTable f) = pendingInterestTable f"
    using assms by (simp add: filter_id_conv)
  moreover have "filter (\<lambda>t. \<forall>e\<in>set (pendingInterestTable f).
                    pendingInterestId e = Some pid \<longrightarrow> fst t \<noteq> timerID e) (timers f) = timers f"
    using assms by (simp add: filter_id_conv)
  ultimately show ?thesis
    using assms by (simp add: removePendingInterest_Some Let_def)
qed

text \<open>The example Face with one pending Interest, field by field.\<close>

lemma onePending_eq:
  "onePending = openedFace
     \<lparr> pendingInterestTable :=
         [\<lparr> pendingInterestId = Some 1, interest = exampleInterest [''a''],
            onData = AppCallback 1, onTimeout = Some (AppCallback 2), timerID = 0 \<rparr>],
       timers :=
         [(0, 100, \<lparr> pendingInterestId = Some 1, interest = exampleInterest [''a''],
            onData = AppCallback 1, onTimeout = Some (AppCallback 2), timerID = 0 \<rparr>)],
       nextTimerID := 1,
       transport := \<lparr> transport_connectionInfo = Some ''localhost'', sent = [''a''], closeCalls = 0 \<rparr> \<rparr>"
  by (simp add: onePending_def face_run_def face_step_def reconnectAndExpressInterest_def
        expressInterestHelper_def openedFace_def newFace_def transport_connect_def
        transport_send_def exampleLibrary_def exampleInterest_def removeRequestIndex_def
        getMaxNdnPacketSize_def MAX_NDN_PACKET_SIZE_def timeoutPrefix_def match_def
        timeoutMilliseconds_def Let_def)

section \<open>Lifecycle: close\<close>

text \<open>
  C9, as amended. \<^verbatim>\<open>close()\<close> moves the Face to CLOSED and closes the transport when
  the Face is OPENED; in every other state (UNOPEN, OPEN_REQUESTED, CLOSED) it returns at
  once and leaves the Face, and the transport, as they were.
\<close>

theorem C9_close_only_when_opened:
  "(readyStatus f = OPENED \<longrightarrow>
      readyStatus (close f) = CLOSED
      \<and> closeCalls (transport (close f)) = Suc (closeCalls (transport f)))
   \<and> (readyStatus f \<noteq> OPENED \<longrightarrow> close f = f)"
  by (simp add: close_def transport_close_def)

theorem C9_witness:
  "readyStatus openedFace = OPENED
   \<and> readyStatus (close openedFace) = CLOSED
   \<and> closeCalls (transport (close openedFace)) = Suc (closeCalls (transport openedFace))
   \<and> readyStatus (newFace None) \<noteq> OPENED
   \<and> close (newFace None) = newFace None"
  using C9_close_only_when_opened [of openedFace] C9_close_only_when_opened [of "newFace None"]
  by (simp add: openedFace_def newFace_def transport_connect_def)

text \<open>
  C9 as stated fails: a Face that was never opened stays UNOPEN under \<^verbatim>\<open>close()\<close>, and
  its transport is not closed.
\<close>

theorem C9_counterexample:
  "readyStatus (close (newFace (Some ''localhost''))) = UNOPEN
   \<and> closeCalls (transport (close (newFace (Some ''localhost'')))) = 0"
  by (simp add: close_def newFace_def)

section \<open>removePendingInterest twice\<close>

text \<open>
  C10, as amended. A second \<^verbatim>\<open>removePendingInterest(i)\<close> right after the first never
  changes the pending interest table or the timers. It leaves the whole Face as the first
  call left it when no PIT entry with id \<open>i\<close> existed at the first call, and a call with a
  null \<open>i\<close> changes nothing at all. When the first call did remove an entry, the first call leaves the pending-removal
  set alone and the second call, finding no entry, appends \<open>i\<close> to it unless it is there
  already.
\<close>

theorem C10_removePendingInterest_twice:
  "pendingInterestTable (removePendingInterest i (removePendingInterest i f))
     = pendingInterestTable (removePendingInterest i f)
   \<and> timers (removePendingInterest i (removePendingInterest i f))
     = timers (removePendingInterest i f)
   \<and> ((\<forall>e\<in>set (pendingInterestTable f). pendingInterestId e \<noteq> i) \<longrightarrow>
        removePendingInterest i (removePendingInterest i f) = removePendingInterest i f)
   \<and> (\<forall>n. i = Some n \<and> (\<exists>e\<in>set (pendingInterestTable f). pendingInterestId e = Some n) \<longrightarrow>
        pitRemoveRequests (removePendingInterest i f) = pitRemoveRequests f
        \<and> pitRemoveRequests (removePendingInterest i (removePendingInterest i f))
            = (if n \<in> set (pitRemoveRequests f) then pitRemoveRequests f
               else pitRemoveRequests f @ [n]))
   \<and> removePendingInterest None f = f"
proof (cases i)
  case None
  then show ?thesis by (simp add: removePendingInterest_def)
next
  case (Some n)
  let ?g = "removePendingInterest (Some n) f"
  have gone: "\<forall>e\<in>set (pendingInterestTable ?g). pendingInterestId e \<noteq> Some n"
    by (simp add: removePendingInterest_Some Let_def)
  have second: "removePendingInterest (Some n) ?g =
           (if n \<in> set (pitRemoveRequests ?g) then ?g
            else ?g\<lparr>pitRemoveRequests := pitRemoveRequests ?g @ [n]\<rparr>)"
    by (rule removePendingInterest_absent [OF gone])
  have a: "pendingInterestTable (removePendingInterest (Some n) ?g) = pendingInterestTable ?g"
    by (simp add: second)
  have b: "timers (removePendingInterest (Some n) ?g) = timers ?g"
    by (simp add: second)
  have c: "(\<forall>e\<in>set (pendingInterestTable f). pendingInterestId e \<noteq> Some n) \<longrightarrow>
        removePendingInterest (Some n) ?g = ?g"
  proof
    assume h: "\<forall>e\<in>set (pendingInterestTable f). pendingInterestId e \<noteq> Some n"
    have "n \<in> set (pitRemoveRequests ?g)"
      by (simp add: removePendingInterest_absent [OF h])
    then show "removePendingInterest (Some n) ?g = ?g"
      by (simp add: second)
  qed
  have d: "(\<exists>e\<in>set (pendingInterestTable f). pendingInterestId e = Some n) \<longrightarrow>
        pitRemoveRequests ?g = pitRemoveRequests f
        \<and> pitRemoveRequests (removePendingInterest (Some n) ?g)
            = (if n \<in> set (pitRemoveRequests f) then pitRemoveRequests f
               else pitRemoveRequests f @ [n])"
  proof
    assume h: "\<exists>e\<in>set (pendingInterestTable f). pendingInterestId e = Some n"
    have g: "pitRemoveRequests ?g = pitRemoveRequests f"
      using h by (simp add: removePendingInterest_Some Let_def)
    show "pitRemoveRequests ?g = pitRemoveRequests f
        \<and> pitRemoveRequests (removePendingInterest (Some n) ?g)
            = (if n \<in> set (pitRemoveRequests f) then pitRemoveRequests f
               else pitRemoveRequests f @ [n])"
      by (simp add: second g)
  qed
  have e: "removePendingInterest None f = f"
    by (simp add: removePendingInterest_def)
  from a b c d e Some show ?thesis by simp
qed

theorem C10_witness:
  "(\<exists>e\<in>set (pendingInterestTable onePending). pendingInterestId e = Some 1)
   \<and> pendingInterestTable (removePendingInterest (Some 1) (removePendingInterest (Some 1) onePending)) = []
   \<and> pitRemoveRequests (removePendingInterest (Some 1) (removePendingInterest (Some 1) onePending))
       = pitRemoveRequests onePending @ [1]
   \<and> map pendingInterestId (pendingInterestTable onePending) = [Some 1]
   \<and> removePendingInterest (Some 7) (removePendingInterest (Some 7) onePending)
       = removePendingInterest (Some 7) onePending
   \<and> pitRemoveRequests (removePendingInterest (Some 7) onePending) = [7]"
  using C10_removePendingInterest_twice [of "Some 1" onePending]
        C10_removePendingInterest_twice [of "Some 7" onePending]
  by (simp add: onePending_eq removePendingInterest_Some Let_def openedFace_def newFace_def
        transport_connect_def)

text \<open>
  C10 as stated fails: with one pending Interest of id 1, one call leaves the
  pending-removal set empty and two calls leave the id 1 in it.
\<close>

theorem C10_counterexample:
  "pitRemoveRequests (removePendingInterest (Some 1) onePending) = []
   \<and> pitRemoveRequests (removePendingInterest (Some 1) (removePendingInterest (Some 1) onePending)) = [1]"
  by (simp add: onePending_eq removePendingInterest_Some Let_def openedFace_def newFace_def
        transport_connect_def)

section \<open>expressInterestHelper: size limit, removal requests, the timeout prefix\<close>


lemma indexOf_in: "x \<in> set xs \<Longrightarrow> \<exists>i. indexOf xs x = Some i"
  using indexOf_None_iff [of xs x] by (cases "indexOf xs x") auto



lemma RegisterResponse_onTimeout_eq:
  "RegisterResponse_onTimeout r f =
     f\<lparr>calls := calls f @ (case response_onRegisterFailed r of
                               Some g \<Rightarrow> [Call_onRegisterFailed g (response_prefix r)]
                             | None \<Rightarrow> [])\<rparr>"
  by (simp add: RegisterResponse_onTimeout_def split: option.splits)

lemma call_onTimeout_eq:
  "call_onTimeout f e h =
     f\<lparr>calls := calls f @ Call_onTimeout e #
        (case h of
           Bound_onData r \<Rightarrow>
             (case response_onRegisterFailed r of
                Some g \<Rightarrow> [Call_onRegisterFailed g (response_prefix r)] | None \<Rightarrow> [])
         | Bound_onTimeout r \<Rightarrow>
             (case response_onRegisterFailed r of
                Some g \<Rightarrow> [Call_onRegisterFailed g (response_prefix r)] | None \<Rightarrow> [])
         | _ \<Rightarrow> [])\<rparr>"
  by (simp add: call_onTimeout_def Let_def RegisterResponse_onTimeout_eq split: handler.splits)

lemmas eval_defs = face_run_def face_step_def reconnectAndExpressInterest_def
        expressInterestHelper_def openedFace_def newFace_def transport_connect_def
        transport_send_def exampleLibrary_def exampleInterest_def removeRequestIndex_def
        getMaxNdnPacketSize_def MAX_NDN_PACKET_SIZE_def timeoutPrefix_def match_def
        timeoutMilliseconds_def Let_def transport_onOpen_def removePendingInterest_def
        splice1_def




text \<open>
  A removal request and the call it waits for. When \<^verbatim>\<open>removePendingInterest(n)\<close> runs
  while no PIT entry has the id \<open>n\<close>, the id is recorded in the pending-removal set and the
  PIT and the timers stay as they are. When \<^verbatim>\<open>expressInterestHelper\<close> then runs for
  the id \<open>n\<close>, with an encoding within the size limit, it erases the marker, inserts no PIT
  entry, sets no timer and calls nothing; the statement that sends stands after the
  branch, so the transport is still given the encoding unless the name is under
  \<^verbatim>\<open>/local/timeout\<close>.
\<close>

lemma removal_request_before_insertion:
  "((\<forall>e\<in>set (pendingInterestTable f). pendingInterestId e \<noteq> Some n) \<longrightarrow>
      n \<in> set (pitRemoveRequests (removePendingInterest (Some n) f))
      \<and> pendingInterestTable (removePendingInterest (Some n) f) = pendingInterestTable f
      \<and> timers (removePendingInterest (Some n) f) = timers f)
   \<and> (n \<in> set (pitRemoveRequests g) \<and> length (wireEncode L i) \<le> 8800 \<longrightarrow>
      (\<exists>g'. expressInterestHelper L g (Some n) i onD onT = Inr g'
         \<and> pitRemoveRequests g' = remove1 n (pitRemoveRequests g)
         \<and> pendingInterestTable g' = pendingInterestTable g
         \<and> timers g' = timers g
         \<and> nextTimerID g' = nextTimerID g
         \<and> calls g' = calls g
         \<and> sent (transport g') = sent (transport g)
              @ (if match timeoutPrefix (interestName i) then [] else [wireEncode L i])))"
proof -
  have a: "(\<forall>e\<in>set (pendingInterestTable f). pendingInterestId e \<noteq> Some n) \<longrightarrow>
      n \<in> set (pitRemoveRequests (removePendingInterest (Some n) f))
      \<and> pendingInterestTable (removePendingInterest (Some n) f) = pendingInterestTable f
      \<and> timers (removePendingInterest (Some n) f) = timers f"
    by (simp add: removePendingInterest_absent)
  have b: "n \<in> set (pitRemoveRequests g) \<and> length (wireEncode L i) \<le> 8800 \<longrightarrow>
      (\<exists>g'. expressInterestHelper L g (Some n) i onD onT = Inr g'
         \<and> pitRemoveRequests g' = remove1 n (pitRemoveRequests g)
         \<and> pendingInterestTable g' = pendingInterestTable g
         \<and> timers g' = timers g
         \<and> nextTimerID g' = nextTimerID g
         \<and> calls g' = calls g
         \<and> sent (transport g') = sent (transport g)
              @ (if match timeoutPrefix (interestName i) then [] else [wireEncode L i]))"
  proof
    assume h: "n \<in> set (pitRemoveRequests g) \<and> length (wireEncode L i) \<le> 8800"
    then obtain idx where idx: "indexOf (pitRemoveRequests g) n = Some idx"
      using indexOf_in by fastforce
    have sp: "splice1 idx (pitRemoveRequests g) = remove1 n (pitRemoveRequests g)"
      by (rule indexOf_Some_splice1 [OF idx])
    show "\<exists>g'. expressInterestHelper L g (Some n) i onD onT = Inr g'
         \<and> pitRemoveRequests g' = remove1 n (pitRemoveRequests g)
         \<and> pendingInterestTable g' = pendingInterestTable g
         \<and> timers g' = timers g
         \<and> nextTimerID g' = nextTimerID g
         \<and> calls g' = calls g
         \<and> sent (transport g') = sent (transport g)
              @ (if match timeoutPrefix (interestName i) then [] else [wireEncode L i])"
      using h idx sp
      by (simp add: expressInterestHelper_def getMaxNdnPacketSize_def MAX_NDN_PACKET_SIZE_def
            Let_def removeRequestIndex_def transport_send_def)
  qed
  from a b show ?thesis by blast
qed

text \<open>
  C5. The code does what the claim says of the marker, the PIT, the timer and the
  callbacks, and departs from it on the send. An Interest \<^verbatim>\<open>/a\<close> is expressed with id
  1 on a Face that is still connecting, the pending Interest 1 is removed, the transport
  opens: no PIT entry and no timer are made, the marker is erased and only \<^verbatim>\<open>onopen\<close>
  is called, but the transport has been given the Interest. The branch of
  \<^verbatim>\<open>nfdRegisterPrefix\<close> for a removal request, which carries the same comment, erases
  its marker and returns: run for the id 1 with a removal request pending, it leaves the
  Face with nothing sent and no table written.
\<close>

theorem C5_removed_interest_is_sent:
  "sent (transport (removedBeforeSent [''a''])) = [''a'']
   \<and> pendingInterestTable (removedBeforeSent [''a'']) = []
   \<and> timers (removedBeforeSent [''a'']) = []
   \<and> pitRemoveRequests (removedBeforeSent [''a'']) = []
   \<and> calls (removedBeforeSent [''a'']) = [Call_onopen]
   \<and> nfdRegisterPrefix exampleLibrary 1 [''app''] (Some 7) 0 (Some 9) (Some 1) [''cert'']
        (signingFace\<lparr>registeredPrefixRemoveRequests := [1]\<rparr>)
      = (signingFace\<lparr>registeredPrefixRemoveRequests := []\<rparr>, None)"
proof -
  have "nfdRegisterPrefix exampleLibrary 1 [''app''] (Some 7) 0 (Some 9) (Some 1) [''cert'']
        (signingFace\<lparr>registeredPrefixRemoveRequests := [1]\<rparr>)
      = (signingFace\<lparr>registeredPrefixRemoveRequests := []\<rparr>, None)"
    by (simp add: nfdRegisterPrefix_def splice1_def)
  then show ?thesis
    by (simp add: removedBeforeSent_def eval_defs)
qed




section \<open>Receiving Data: the entries taken out of the PIT\<close>

text \<open>
  The backwards loop of \<^verbatim>\<open>extractEntriesForExpressedInterest\<close>, run over the first
  \<open>k\<close> entries, keeps the entries that do not match, clears the timers of the entries it
  takes out and returns those, last first.
\<close>

lemma extractEntries_loop_eq:
  "k \<le> length (pendingInterestTable f) \<Longrightarrow>
   extractEntries_loop L n k f res =
     (f\<lparr>timers := filter (\<lambda>t. \<forall>e\<in>set (take k (pendingInterestTable f)).
                                matchesName L (interest e) n \<longrightarrow> fst t \<noteq> timerID e) (timers f),
        pendingInterestTable :=
          filter (\<lambda>e. \<not> matchesName L (interest e) n) (take k (pendingInterestTable f))
            @ drop k (pendingInterestTable f)\<rparr>,
      res @ rev (filter (\<lambda>e. matchesName L (interest e) n) (take k (pendingInterestTable f))))"
proof (induction k arbitrary: f res)
  case 0
  then show ?case by simp
next
  case (Suc k)
  let ?pit = "pendingInterestTable f"
  let ?m = "\<lambda>e. matchesName L (interest e) n"
  from Suc.prems have k: "k < length ?pit" by simp
  have tk: "take (Suc k) ?pit = take k ?pit @ [?pit ! k]"
    using k by (simp add: take_Suc_conv_app_nth)
  show ?case
  proof (cases "?m (?pit ! k)")
    case True
    let ?f' = "(clearTimeout (timerID (?pit ! k)) f)\<lparr>pendingInterestTable := splice1 k ?pit\<rparr>"
    have len: "k \<le> length (pendingInterestTable ?f')"
      using k by (simp add: length_splice1)
    have P: "(\<lambda>x. fst x \<noteq> timerID (?pit ! k) \<and>
                 (\<forall>e\<in>set (take k ?pit). ?m e \<longrightarrow> fst x \<noteq> timerID e))
           = (\<lambda>t. \<forall>e\<in>set (take (Suc k) ?pit). ?m e \<longrightarrow> fst t \<noteq> timerID e)"
      using True by (auto simp: tk)
    have "extractEntries_loop L n (Suc k) f res = extractEntries_loop L n k ?f' (res @ [?pit ! k])"
      using True by (simp add: Let_def)
    also have "\<dots> = (?f'\<lparr>timers := filter (\<lambda>t. \<forall>e\<in>set (take k (pendingInterestTable ?f')).
                                ?m e \<longrightarrow> fst t \<noteq> timerID e) (timers ?f'),
        pendingInterestTable :=
          filter (\<lambda>e. \<not> ?m e) (take k (pendingInterestTable ?f'))
            @ drop k (pendingInterestTable ?f')\<rparr>,
      (res @ [?pit ! k]) @ rev (filter ?m (take k (pendingInterestTable ?f'))))"
      by (rule Suc.IH [OF len])
    also have "\<dots> = (f\<lparr>timers := filter (\<lambda>t. \<forall>e\<in>set (take (Suc k) ?pit).
                                ?m e \<longrightarrow> fst t \<noteq> timerID e) (timers f),
        pendingInterestTable :=
          filter (\<lambda>e. \<not> ?m e) (take (Suc k) ?pit) @ drop (Suc k) ?pit\<rparr>,
      res @ rev (filter ?m (take (Suc k) ?pit)))"
      unfolding P [symmetric]
      using True k by (simp add: take_splice1 drop_splice1 tk clearTimeout_def
            del: take_Suc_conv_app_nth)
    finally show ?thesis .
  next
    case False
    have P: "(\<lambda>t. \<forall>e\<in>set (take (Suc k) ?pit). ?m e \<longrightarrow> fst t \<noteq> timerID e)
           = (\<lambda>t. \<forall>e\<in>set (take k ?pit). ?m e \<longrightarrow> fst t \<noteq> timerID e)"
      using False by (auto simp: tk)
    from Suc.prems have len: "k \<le> length ?pit" by simp
    show ?thesis
      unfolding P
      using False k Suc.IH [OF len, of res]
      by (simp add: Let_def tk Cons_nth_drop_Suc)
  qed
qed

lemma extractEntriesForExpressedInterest_eq:
  "extractEntriesForExpressedInterest L n f =
     (f\<lparr>timers := filter (\<lambda>t. \<forall>e\<in>set (pendingInterestTable f).
                                matchesName L (interest e) n \<longrightarrow> fst t \<noteq> timerID e) (timers f),
        pendingInterestTable :=
          filter (\<lambda>e. \<not> matchesName L (interest e) n) (pendingInterestTable f)\<rparr>,
      rev (filter (\<lambda>e. matchesName L (interest e) n) (pendingInterestTable f)))"
  by (simp add: extractEntriesForExpressedInterest_def extractEntries_loop_eq)

lemma RegisterResponse_onData_eq:
  "RegisterResponse_onData L r d f =
     (if (case content d of None \<Rightarrow> None | Some b \<Rightarrow> readStatusCode L b) = Some 200 then f
      else RegisterResponse_onTimeout r f)"
  by (simp add: RegisterResponse_onData_def RegisterResponse_onTimeout_def Let_def
        split: option.splits)

section \<open>Prefix registration\<close>



lemma call_onData_eq:
  "call_onData L d f e =
     f\<lparr>calls := calls f @ Call_onData e d #
        (case onData e of
           Bound_onData r \<Rightarrow>
             if (case content d of None \<Rightarrow> None | Some b \<Rightarrow> readStatusCode L b) = Some 200 then []
             else (case response_onRegisterFailed r of
                     Some g \<Rightarrow> [Call_onRegisterFailed g (response_prefix r)] | None \<Rightarrow> [])
         | Bound_onTimeout r \<Rightarrow>
             (case response_onRegisterFailed r of
                Some g \<Rightarrow> [Call_onRegisterFailed g (response_prefix r)] | None \<Rightarrow> [])
         | _ \<Rightarrow> [])\<rparr>"
  by (simp add: call_onData_def Let_def RegisterResponse_onData_eq RegisterResponse_onTimeout_eq
        split: handler.splits)






text \<open>
  A registration whose command Interest times out: the timer of its PIT entry fires, the
  bound \<^verbatim>\<open>onTimeout\<close> of the RegisterResponse runs and calls \<^verbatim>\<open>onRegisterFailed(/app)\<close>.
\<close>

lemma registration_timeout_calls_onRegisterFailed:
  "map fst (timers registering) = [0]
   \<and> pendingInterestTable (timerFires 0 registering) = []
   \<and> last (calls (timerFires 0 registering)) = Call_onRegisterFailed 9 [''app'']
   \<and> length (calls (timerFires 0 registering)) = 2"
  by code_simp

section \<open>At most one callback for each PIT entry\<close>

lemma called_append: "called (xs @ ys) = called xs @ called ys"
  by (simp add: called_def map_filter_def)

lemma called_simps:
  "called [] = []"
  "called [Call_onData e d] = [e]"
  "called [Call_onTimeout e] = [e]"
  "called [Call_onRegisterFailed g p] = []"
  "called [Call_onopen] = []"
  "called [Call_onclose] = []"
  by (simp_all add: called_def map_filter_def)

lemma inv4_prefix: "inv4 P T n (C @ C') \<Longrightarrow> inv4 P T n C"
  by (auto simp: inv4_def)

lemma inv4_add:
  assumes "inv4 P T n C" and "timerID e = n"
  shows "inv4 (P @ [e]) (T @ [(n, ms, e)]) (Suc n) C"
  using assms by (fastforce simp: inv4_def less_Suc_eq)

lemma inv4_filter:
  assumes "inv4 P T n C"
  shows "inv4 (filter (\<lambda>e. \<not> m e) P)
              (filter (\<lambda>t. \<forall>e\<in>set P. m e \<longrightarrow> fst t \<noteq> timerID e) T) n
              (C @ rev (filter m P))"
proof -
  from assms have lt: "\<forall>e\<in>set P. timerID e < n" and d: "distinct (map timerID P)"
    and t: "\<forall>t\<in>set T. snd (snd t) \<in> set P \<and> fst t = timerID (snd (snd t))"
    and c: "\<forall>e\<in>set C. timerID e < n \<and> timerID e \<notin> timerID ` set P"
    and dc: "distinct (map timerID C)"
    by (auto simp: inv4_def)
  from d have inj: "inj_on timerID (set P)" and dP: "distinct P"
    by (auto simp: distinct_map)
  have 1: "\<forall>e\<in>set (filter (\<lambda>e. \<not> m e) P). timerID e < n"
    using lt by simp
  have 2: "distinct (map timerID (filter (\<lambda>e. \<not> m e) P))"
    using d by (rule distinct_map_filter)
  have 3: "\<forall>t\<in>set (filter (\<lambda>t. \<forall>e\<in>set P. m e \<longrightarrow> fst t \<noteq> timerID e) T).
             snd (snd t) \<in> set (filter (\<lambda>e. \<not> m e) P) \<and> fst t = timerID (snd (snd t))"
    using t by auto
  have 4: "\<forall>e\<in>set (C @ rev (filter m P)).
             timerID e < n \<and> timerID e \<notin> timerID ` set (filter (\<lambda>e. \<not> m e) P)"
  proof
    fix e assume e: "e \<in> set (C @ rev (filter m P))"
    show "timerID e < n \<and> timerID e \<notin> timerID ` set (filter (\<lambda>e. \<not> m e) P)"
    proof (cases "e \<in> set C")
      case True
      with c show ?thesis by auto
    next
      case False
      with e have eP: "e \<in> set P" and me: "m e" by auto
      have "timerID e \<notin> timerID ` set (filter (\<lambda>e. \<not> m e) P)"
      proof
        assume "timerID e \<in> timerID ` set (filter (\<lambda>e. \<not> m e) P)"
        then obtain e' where e': "e' \<in> set P" "\<not> m e'" "timerID e' = timerID e" by auto
        with inj eP have "e' = e" by (auto dest: inj_onD)
        with e' me show False by simp
      qed
      with lt eP show ?thesis by simp
    qed
  qed
  have 5: "distinct (map timerID (C @ rev (filter m P)))"
  proof -
    have "distinct (map timerID (filter m P))"
      using d by (rule distinct_map_filter)
    then have "distinct (map timerID (rev (filter m P)))"
      by (simp add: rev_map [symmetric] del: rev_map rev_filter)
    moreover have "set (map timerID C) \<inter> set (map timerID (filter m P)) = {}"
      using c by auto
    ultimately show ?thesis
      using dc by simp
  qed
  from 1 2 3 4 5 show ?thesis
    unfolding inv4_def by blast
qed

lemma inv4_fire:
  assumes "inv4 P T n C" and "(h, ms, e) \<in> set T"
  shows "inv4 (remove1 e P) (filter (\<lambda>t. fst t \<noteq> h) T) n (C @ [e])"
proof -
  from assms(1) have lt: "\<forall>e\<in>set P. timerID e < n" and d: "distinct (map timerID P)"
    and t: "\<forall>t\<in>set T. snd (snd t) \<in> set P \<and> fst t = timerID (snd (snd t))"
    and c: "\<forall>e\<in>set C. timerID e < n \<and> timerID e \<notin> timerID ` set P"
    and dc: "distinct (map timerID C)"
    by (auto simp: inv4_def)
  from d have inj: "inj_on timerID (set P)" and dP: "distinct P"
    by (auto simp: distinct_map)
  from t assms(2) have eP: "e \<in> set P" and he: "h = timerID e" by auto
  have setr: "set (remove1 e P) = set P - {e}"
    using dP by simp
  have 1: "\<forall>x\<in>set (remove1 e P). timerID x < n"
    using lt setr by simp
  have 2: "distinct (map timerID (remove1 e P))"
    using dP inj setr by (auto simp: distinct_map intro: inj_on_subset)
  have 3: "\<forall>t\<in>set (filter (\<lambda>t. fst t \<noteq> h) T).
             snd (snd t) \<in> set (remove1 e P) \<and> fst t = timerID (snd (snd t))"
    using t he setr by auto
  have ne: "timerID e \<notin> timerID ` set (remove1 e P)"
  proof
    assume "timerID e \<in> timerID ` set (remove1 e P)"
    then obtain e' where "e' \<in> set (remove1 e P)" "timerID e' = timerID e"
      by auto
    then have e': "e' \<in> set P" "e' \<noteq> e" "timerID e' = timerID e"
      using setr by auto
    with inj eP show False by (auto dest: inj_onD)
  qed
  have 4: "\<forall>x\<in>set (C @ [e]). timerID x < n \<and> timerID x \<notin> timerID ` set (remove1 e P)"
    using c lt eP ne setr by auto
  have "timerID e \<notin> timerID ` set C"
  proof
    assume "timerID e \<in> timerID ` set C"
    then obtain x where "x \<in> set C" "timerID x = timerID e" by auto
    with c have "timerID e \<notin> timerID ` set P" by auto
    with eP show False by simp
  qed
  then have 5: "distinct (map timerID (C @ [e]))"
    using dc by simp
  from 1 2 3 4 5 show ?thesis
    unfolding inv4_def by blast
qed


lemma pit_inv_newFace: "pit_inv (newFace ci)"
  by (simp add: pit_inv_def inv4_def newFace_def called_simps)

lemma pit_inv_expressInterestHelper:
  assumes "pit_inv f" and "expressInterestHelper L f pid i onD onT = Inr f'"
  shows "pit_inv f'"
proof (cases "removeRequestIndex f pid")
  case None
  let ?e = "\<lparr> pendingInterestId = pid, interest = i, onData = onD, onTimeout = onT,
              timerID = nextTimerID f \<rparr>"
  from assms(2) None have
    "pendingInterestTable f' = pendingInterestTable f @ [?e]"
    "timers f' = timers f @ [(nextTimerID f, timeoutMilliseconds i, ?e)]"
    "nextTimerID f' = Suc (nextTimerID f)" "calls f' = calls f"
    by (auto simp: expressInterestHelper_def Let_def transport_send_def split: if_splits)
  with inv4_add [of "pendingInterestTable f" "timers f" "nextTimerID f" "called (calls f)" ?e
                    "timeoutMilliseconds i"] assms(1)
  show ?thesis by (simp add: pit_inv_def)
next
  case (Some idx)
  with assms(2) have
    "pendingInterestTable f' = pendingInterestTable f" "timers f' = timers f"
    "nextTimerID f' = nextTimerID f" "calls f' = calls f"
    by (auto simp: expressInterestHelper_def Let_def transport_send_def split: if_splits)
  with assms(1) show ?thesis by (simp add: pit_inv_def)
qed

lemma reconnectAndExpressInterest_cases:
  assumes "reconnectAndExpressInterest L pid i onD onT f = Inr f'"
  shows "(\<exists>ci. f' = transport_connect ci
                 (f\<lparr>readyStatus := OPEN_REQUESTED,
                    onConnectedCallbacks := onConnectedCallbacks f
                       @ [Deferred_expressInterestHelper pid i onD onT]\<rparr>))
         \<or> f' = f\<lparr>onConnectedCallbacks := onConnectedCallbacks f
                         @ [Deferred_expressInterestHelper pid i onD onT]\<rparr>
         \<or> expressInterestHelper L f pid i onD onT = Inr f'"
proof (cases "connectionInfo f")
  case None
  with assms show ?thesis by (simp add: reconnectAndExpressInterest_def)
next
  case (Some ci)
  define c where "c \<longleftrightarrow> Some ci \<noteq> transport_connectionInfo (transport f) \<or> readyStatus f = UNOPEN"
  define r where "r \<longleftrightarrow> readyStatus f = OPEN_REQUESTED"
  define op where "op \<longleftrightarrow> readyStatus f = OPENED"
  have eq: "reconnectAndExpressInterest L pid i onD onT f =
      (if c then Inr (transport_connect ci
                 (f\<lparr>readyStatus := OPEN_REQUESTED,
                    onConnectedCallbacks := onConnectedCallbacks f
                       @ [Deferred_expressInterestHelper pid i onD onT]\<rparr>))
       else if r then Inr (f\<lparr>onConnectedCallbacks := onConnectedCallbacks f
                         @ [Deferred_expressInterestHelper pid i onD onT]\<rparr>)
       else if op then expressInterestHelper L f pid i onD onT
       else Inl ConnectionNotOpened)"
    unfolding reconnectAndExpressInterest_def Some c_def r_def op_def by simp
  show ?thesis
  proof (cases c)
    case True
    with assms eq show ?thesis by auto
  next
    case nc: False
    show ?thesis
    proof (cases r)
      case True
      with nc assms eq show ?thesis by auto
    next
      case nr: False
      show ?thesis
      proof (cases op)
        case True
        with nc nr assms eq show ?thesis by simp
      next
        case False
        with nc nr assms eq show ?thesis by simp
      qed
    qed
  qed
qed

lemma pit_inv_reconnectAndExpressInterest:
  assumes "pit_inv f" and "reconnectAndExpressInterest L pid i onD onT f = Inr f'"
  shows "pit_inv f'"
proof -
  from reconnectAndExpressInterest_cases [OF assms(2)] consider
      (connect) ci where "f' = transport_connect ci
                 (f\<lparr>readyStatus := OPEN_REQUESTED,
                    onConnectedCallbacks := onConnectedCallbacks f
                       @ [Deferred_expressInterestHelper pid i onD onT]\<rparr>)"
    | (queue) "f' = f\<lparr>onConnectedCallbacks := onConnectedCallbacks f
                         @ [Deferred_expressInterestHelper pid i onD onT]\<rparr>"
    | (express) "expressInterestHelper L f pid i onD onT = Inr f'"
    by blast
  then show ?thesis
  proof cases
    case connect
    with assms(1) show ?thesis by (simp add: pit_inv_def transport_connect_def)
  next
    case queue
    with assms(1) show ?thesis by (simp add: pit_inv_def)
  next
    case express
    with assms(1) show ?thesis by (rule pit_inv_expressInterestHelper)
  qed
qed

lemma pit_inv_runOnConnectedCallbacks:
  "pit_inv f \<Longrightarrow> pit_inv (runOnConnectedCallbacks L q f)"
proof (induction L q f rule: runOnConnectedCallbacks.induct)
  case (1 L f)
  then show ?case by (simp add: pit_inv_def)
next
  case (2 L pid i onD onT rest f)
  let ?f0 = "f\<lparr>onConnectedCallbacks := rest\<rparr>"
  from "2.prems" have p0: "pit_inv ?f0" by (simp add: pit_inv_def)
  show ?case
  proof (cases "expressInterestHelper L ?f0 pid i onD onT")
    case (Inl ex)
    with "2.IH"(1) [OF refl Inl p0] show ?thesis by (simp add: Let_def)
  next
    case (Inr f1)
    from p0 Inr have "pit_inv f1" by (rule pit_inv_expressInterestHelper)
    with "2.IH"(2) [OF refl Inr] Inr show ?thesis by (simp add: Let_def)
  qed
qed

lemma pit_inv_transport_onOpen: "pit_inv f \<Longrightarrow> pit_inv (transport_onOpen L f)"
proof -
  assume "pit_inv f"
  then have "pit_inv (f\<lparr>readyStatus := OPENED\<rparr>)" by (simp add: pit_inv_def)
  then have "pit_inv (runOnConnectedCallbacks L (onConnectedCallbacks f) (f\<lparr>readyStatus := OPENED\<rparr>))"
    by (rule pit_inv_runOnConnectedCallbacks)
  then show ?thesis
    by (simp add: transport_onOpen_def Let_def pit_inv_def called_append called_simps)
qed

lemma pit_inv_removePendingInterest: "pit_inv f \<Longrightarrow> pit_inv (removePendingInterest pid f)"
proof (cases pid)
  case None
  assume "pit_inv f"
  with None show ?thesis by (simp add: removePendingInterest_def)
next
  case (Some n)
  assume "pit_inv f"
  then have "inv4 (filter (\<lambda>e. \<not> pendingInterestId e = Some n) (pendingInterestTable f))
              (filter (\<lambda>t. \<forall>e\<in>set (pendingInterestTable f).
                          pendingInterestId e = Some n \<longrightarrow> fst t \<noteq> timerID e) (timers f))
              (nextTimerID f) (called (calls f))"
    unfolding pit_inv_def by (intro inv4_prefix [OF inv4_filter])
  then have "pit_inv (f\<lparr>timers := filter (\<lambda>t. \<forall>e\<in>set (pendingInterestTable f).
                                pendingInterestId e = Some n \<longrightarrow> fst t \<noteq> timerID e) (timers f),
                  pendingInterestTable :=
                    filter (\<lambda>e. pendingInterestId e \<noteq> Some n) (pendingInterestTable f)\<rparr>)"
    by (simp add: pit_inv_def)
  moreover have "removePendingInterest (Some n) f
      = f\<lparr>timers := filter (\<lambda>t. \<forall>e\<in>set (pendingInterestTable f).
                                pendingInterestId e = Some n \<longrightarrow> fst t \<noteq> timerID e) (timers f),
                  pendingInterestTable :=
                    filter (\<lambda>e. pendingInterestId e \<noteq> Some n) (pendingInterestTable f)\<rparr>
    \<or> removePendingInterest (Some n) f
      = f\<lparr>timers := filter (\<lambda>t. \<forall>e\<in>set (pendingInterestTable f).
                                pendingInterestId e = Some n \<longrightarrow> fst t \<noteq> timerID e) (timers f),
                  pendingInterestTable :=
                    filter (\<lambda>e. pendingInterestId e \<noteq> Some n) (pendingInterestTable f),
                  pitRemoveRequests := pitRemoveRequests f @ [n]\<rparr>"
    unfolding removePendingInterest_Some Let_def by (rule if_split [THEN iffD2]) simp
  ultimately have "pit_inv (removePendingInterest (Some n) f)"
    by (elim disjE) (simp_all add: pit_inv_def)
  with Some show ?thesis by simp
qed

lemma foldl_call_onData_fields:
  "pendingInterestTable (foldl (call_onData L d) f es) = pendingInterestTable f
   \<and> timers (foldl (call_onData L d) f es) = timers f
   \<and> nextTimerID (foldl (call_onData L d) f es) = nextTimerID f
   \<and> called (calls (foldl (call_onData L d) f es)) = called (calls f) @ es"
proof (induction es arbitrary: f)
  case Nil
  show ?case by simp
next
  case (Cons e es)
  have "called (calls (call_onData L d f e)) = called (calls f) @ [e]"
    by (simp add: call_onData_eq called_def map_filter_def split: handler.splits option.splits)
  then show ?case
    using Cons.IH [of "call_onData L d f e"] by (simp add: call_onData_eq)
qed

lemma pit_inv_onReceivedData: "pit_inv f \<Longrightarrow> pit_inv (onReceivedData L d f)"
proof -
  assume "pit_inv f"
  then have "inv4 (filter (\<lambda>e. \<not> matchesName L (interest e) (dataName d)) (pendingInterestTable f))
              (filter (\<lambda>t. \<forall>e\<in>set (pendingInterestTable f).
                          matchesName L (interest e) (dataName d) \<longrightarrow> fst t \<noteq> timerID e) (timers f))
              (nextTimerID f)
              (called (calls f) @ rev (filter (\<lambda>e. matchesName L (interest e) (dataName d))
                                         (pendingInterestTable f)))"
    unfolding pit_inv_def by (rule inv4_filter)
  then show ?thesis
    by (simp add: onReceivedData_def extractEntriesForExpressedInterest_eq
          foldl_call_onData_fields pit_inv_def)
qed

lemma find_SomeD: "find P xs = Some x \<Longrightarrow> P x \<and> x \<in> set xs"
  by (induction xs) (auto split: if_splits)

lemma pit_inv_timerFires: "pit_inv f \<Longrightarrow> pit_inv (timerFires h f)"
proof (cases "find (\<lambda>t. fst t = h) (timers f)")
  case None
  assume "pit_inv f"
  with None show ?thesis by (simp add: timerFires_def)
next
  case (Some t)
  assume inv: "pit_inv f"
  from find_SomeD [OF Some] have th: "fst t = h" and tin': "t \<in> set (timers f)"
    by simp_all
  obtain ms e where t: "t = (h, ms, e)"
    using th by (cases t) auto
  from tin' t have tin: "(h, ms, e) \<in> set (timers f)"
    by simp
  from inv tin have eP: "e \<in> set (pendingInterestTable f)"
    by (auto simp: pit_inv_def inv4_def)
  then obtain idx where idx: "indexOf (pendingInterestTable f) e = Some idx"
    using indexOf_in by fastforce
  have sp: "splice1 idx (pendingInterestTable f) = remove1 e (pendingInterestTable f)"
    by (rule indexOf_Some_splice1 [OF idx])
  from inv tin have a: "inv4 (remove1 e (pendingInterestTable f))
        (filter (\<lambda>t. fst t \<noteq> h) (timers f)) (nextTimerID f) (called (calls f) @ [e])"
    unfolding pit_inv_def by (rule inv4_fire)
  show ?thesis
  proof (cases "onTimeout e")
    case None
    with a [THEN inv4_prefix] Some t idx sp show ?thesis
      by (simp add: timerFires_def timeoutCallback_def clearTimeout_def pit_inv_def)
  next
    case Some': (Some x)
    have c: "called (calls (call_onTimeout g e x)) = called (calls g) @ [e]" for g
      by (simp add: call_onTimeout_eq called_def map_filter_def
            split: handler.splits option.splits)
    have d: "pendingInterestTable (call_onTimeout g e x) = pendingInterestTable g"
      "timers (call_onTimeout g e x) = timers g"
      "nextTimerID (call_onTimeout g e x) = nextTimerID g" for g
      by (simp_all add: call_onTimeout_eq)
    from a Some Some' t idx sp show ?thesis
      by (simp add: timerFires_def timeoutCallback_def clearTimeout_def pit_inv_def c d)
  qed
qed

lemma pit_inv_close: "pit_inv f \<Longrightarrow> pit_inv (close f)"
  by (simp add: close_def transport_close_def pit_inv_def)

lemma pit_inv_face_step: "pit_inv f \<Longrightarrow> pit_inv (face_step L f ev)"
proof (cases ev)
  case (Express pid i onD onT)
  assume "pit_inv f"
  with Express show ?thesis
    by (auto simp: face_step_def split: sum.splits
          intro: pit_inv_reconnectAndExpressInterest)
qed (simp_all add: face_step_def pit_inv_transport_onOpen pit_inv_onReceivedData
       pit_inv_timerFires pit_inv_removePendingInterest pit_inv_close)

lemma pit_inv_face_run: "pit_inv f \<Longrightarrow> pit_inv (face_run L f evs)"
  unfolding face_run_def
  by (induction evs arbitrary: f) (simp_all add: pit_inv_face_step)

lemma callsFor_called: "length (callsFor e cs) = length (filter (\<lambda>x. x = e) (called cs))"
  by (induction cs) (auto simp: callsFor_def called_def map_filter_def)

lemma distinct_filter_eq_le1: "distinct xs \<Longrightarrow> length (filter (\<lambda>x. x = e) xs) \<le> 1"
  by (induction xs) (auto simp: filter_empty_conv)

lemma callsFor_in_called: "callsFor e cs \<noteq> [] \<Longrightarrow> e \<in> set (called cs)"
  by (auto simp: callsFor_def called_def map_filter_def filter_empty_conv image_iff)

text \<open>
  C2. In every run of a Face from the state its constructor leaves, for every PIT entry the
  calls of its \<^verbatim>\<open>onData\<close> and of its \<^verbatim>\<open>onTimeout\<close> number at most one in all: each is
  invoked at most once and never both. Once one of them was invoked the entry is no longer
  in the PIT, so no Data can match it, and its timer is not set, so the timeout cannot fire.
\<close>

theorem C2_one_callback_per_entry:
  "length (callsFor e (calls (face_run L (newFace ci) evs))) \<le> 1
   \<and> (callsFor e (calls (face_run L (newFace ci) evs)) \<noteq> [] \<longrightarrow>
        e \<notin> set (pendingInterestTable (face_run L (newFace ci) evs))
        \<and> timerID e \<notin> fst ` set (timers (face_run L (newFace ci) evs)))"
proof -
  let ?f = "face_run L (newFace ci) evs"
  have inv: "pit_inv ?f"
    by (rule pit_inv_face_run [OF pit_inv_newFace])
  then have d: "distinct (map timerID (called (calls ?f)))"
    and c: "\<forall>e\<in>set (called (calls ?f)). timerID e \<notin> timerID ` set (pendingInterestTable ?f)"
    and t: "\<forall>t\<in>set (timers ?f). snd (snd t) \<in> set (pendingInterestTable ?f)
               \<and> fst t = timerID (snd (snd t))"
    by (auto simp: pit_inv_def inv4_def)
  from d have "distinct (called (calls ?f))" by (simp add: distinct_map)
  then have 1: "length (callsFor e (calls ?f)) \<le> 1"
    unfolding callsFor_called by (rule distinct_filter_eq_le1)
  have 2: "e \<notin> set (pendingInterestTable ?f) \<and> timerID e \<notin> fst ` set (timers ?f)"
    if "callsFor e (calls ?f) \<noteq> []"
  proof -
    from that have "e \<in> set (called (calls ?f))" by (rule callsFor_in_called)
    with c have n: "timerID e \<notin> timerID ` set (pendingInterestTable ?f)" by simp
    then have "e \<notin> set (pendingInterestTable ?f)" by auto
    moreover have "timerID e \<notin> fst ` set (timers ?f)"
    proof
      assume "timerID e \<in> fst ` set (timers ?f)"
      then obtain x where x: "x \<in> set (timers ?f)" "fst x = timerID e" by auto
      with t have "snd (snd x) \<in> set (pendingInterestTable ?f)"
        and "timerID (snd (snd x)) = timerID e" by simp_all
      then have "timerID e \<in> timerID ` set (pendingInterestTable ?f)"
        by (metis imageI)
      with n show False by simp
    qed
    ultimately show ?thesis by simp
  qed
  from 1 2 show ?thesis by blast
qed

theorem C2_witness:
  "callsFor entryA (calls (face_run exampleLibrary (newFace (Some ''localhost'')) answeredThenFired))
     = [Call_onData entryA dataA]
   \<and> length (callsFor entryA
         (calls (face_run exampleLibrary (newFace (Some ''localhost'')) answeredThenFired))) \<le> 1
   \<and> entryA \<notin> set (pendingInterestTable
         (face_run exampleLibrary (newFace (Some ''localhost'')) answeredThenFired))
   \<and> timerID entryA \<notin> fst ` set (timers
         (face_run exampleLibrary (newFace (Some ''localhost'')) answeredThenFired))
   \<and> callsFor entryA (calls (face_run exampleLibrary (newFace (Some ''localhost'')) firedThenAnswered))
     = [Call_onTimeout entryA]
   \<and> length (callsFor entryA
         (calls (face_run exampleLibrary (newFace (Some ''localhost'')) firedThenAnswered))) \<le> 1"
proof -
  have a: "callsFor entryA (calls (face_run exampleLibrary (newFace (Some ''localhost'')) answeredThenFired))
     = [Call_onData entryA dataA]"
    by code_simp
  have b: "callsFor entryA (calls (face_run exampleLibrary (newFace (Some ''localhost'')) firedThenAnswered))
     = [Call_onTimeout entryA]"
    by code_simp
  from a b
    C2_one_callback_per_entry [of entryA exampleLibrary "Some ''localhost''" answeredThenFired]
    C2_one_callback_per_entry [of entryA exampleLibrary "Some ''localhost''" firedThenAnswered]
  show ?thesis by simp
qed

section \<open>The segment fetcher delivers the segments in order\<close>

lemma saved_Fetched:
  "saved v k (Fetched i d # evs) =
     (if accepts v k d then d # saved v (Suc k) evs else saved v k evs)"
  by simp

lemma contentParts_onData:
  "contentParts (fst (fetcher_onData v oi d s)) =
     (if accepts v (length (contentParts s)) d then contentParts s @ [content d]
      else contentParts s)"
  by (auto simp: fetcher_onData_def accepts_def Let_def fetcher_onError_def fetchNextSegment_def
        split: option.splits sum.splits)

lemma actions_onData_complete:
  assumes "Fetcher_onComplete blob \<in> set (actions (fst (fetcher_onData v oi d s)))"
    and "Fetcher_onComplete blob \<notin> set (actions s)"
  shows "accepts v (length (contentParts s)) d
         \<and> toSegment (finalBlockId d) = Some (length (contentParts s))
         \<and> None \<notin> set (contentParts s @ [content d])
         \<and> blob = concat (map the (contentParts s @ [content d]))"
  using assms
  by (auto simp: fetcher_onData_def accepts_def Let_def fetcher_onError_def fetchNextSegment_def
        Buffer_concat_def split: option.splits sum.splits if_splits)


lemma saved_append:
  "saved v k (evs @ evs') = saved v k evs @ saved v (k + length (saved v k evs)) evs'"
proof (induction evs arbitrary: k)
  case Nil
  show ?case by simp
next
  case (Cons ev evs)
  show ?case
  proof (cases ev)
    case (Fetched i d)
    with Cons.IH [of "Suc k"] Cons.IH [of k] show ?thesis by (simp add: saved_Fetched)
  next
    case (TimedOut i)
    with Cons.IH [of k] show ?thesis by simp
  qed
qed

lemma arrivals_append: "arrivals (evs @ evs') = arrivals evs @ arrivals evs'"
  by (induction evs rule: arrivals.induct) simp_all

lemma subseq_saved: "subseq (saved v k evs) (arrivals evs)"
proof (induction evs arbitrary: k)
  case Nil
  show ?case by simp
next
  case (Cons ev evs)
  show ?case
  proof (cases ev)
    case (Fetched i d)
    with Cons.IH [of "Suc k"] Cons.IH [of k] show ?thesis by auto
  next
    case (TimedOut i)
    with Cons.IH [of k] show ?thesis by simp
  qed
qed

lemma segments_saved:
  "map (\<lambda>d. toSegment (last (dataName d))) (saved v k evs)
     = map Some [k..<k + length (saved v k evs)]"
proof (induction evs arbitrary: k)
  case Nil
  show ?case by simp
next
  case (Cons ev evs)
  show ?case
  proof (cases ev)
    case (Fetched i d)
    show ?thesis
    proof (cases "accepts v k d")
      case True
      then have "toSegment (last (dataName d)) = Some k" by (simp add: accepts_def)
      with True Fetched Cons.IH [of "Suc k"] show ?thesis
        by (simp add: saved_Fetched upt_conv_Cons del: upt_Suc)
    next
      case False
      with Fetched Cons.IH [of k] show ?thesis by (simp add: saved_Fetched)
    qed
  next
    case (TimedOut i)
    with Cons.IH [of k] show ?thesis by simp
  qed
qed

lemma contentParts_step:
  "contentParts (fetcher_step v s ev) = contentParts s @ map content (saved v (length (contentParts s)) [ev])"
  by (cases ev) (simp_all add: fetcher_step_def contentParts_onData saved_Fetched
        fetcher_onTimeout_def fetcher_onError_def)

lemma contentParts_run:
  "contentParts (fetcher_run v s evs)
     = contentParts s @ map content (saved v (length (contentParts s)) evs)"
proof (induction evs rule: rev_induct)
  case Nil
  show ?case by (simp add: fetcher_run_def)
next
  case (snoc ev evs)
  have "fetcher_run v s (evs @ [ev]) = fetcher_step v (fetcher_run v s evs) ev"
    by (simp add: fetcher_run_def)
  then show ?case
    using snoc.IH by (simp add: contentParts_step saved_append)
qed

lemma actions_step_complete:
  assumes "Fetcher_onComplete blob \<in> set (actions (fetcher_step v s ev))"
    and "Fetcher_onComplete blob \<notin> set (actions s)"
  shows "\<exists>i d. ev = Fetched i d
           \<and> accepts v (length (contentParts s)) d
           \<and> toSegment (finalBlockId d) = Some (length (contentParts s))
           \<and> None \<notin> set (contentParts s @ [content d])
           \<and> blob = concat (map the (contentParts s @ [content d]))"
proof (cases ev)
  case (Fetched i d)
  with assms actions_onData_complete [of blob v i d s] show ?thesis
    by (simp add: fetcher_step_def)
next
  case (TimedOut i)
  with assms show ?thesis
    by (simp add: fetcher_step_def fetcher_onTimeout_def fetcher_onError_def)
qed

lemma delivered_mono:
  assumes "delivered D blob"
  shows "delivered (D @ D') blob"
proof -
  from assms obtain ds where ds: "subseq ds D" "ds \<noteq> []"
      "map (\<lambda>d. toSegment (last (dataName d))) ds = map Some [0..<length ds]"
      "toSegment (finalBlockId (last ds)) = Some (length ds - 1)"
      "\<forall>d\<in>set ds. content d \<noteq> None"
      "blob = concat (map (\<lambda>d. the (content d)) ds)"
    unfolding delivered_def by blast
  from ds(1) have "subseq ds (D @ D')" by (rule subseq_rev_drop_many)
  with ds(2-6) show ?thesis
    unfolding delivered_def by blast
qed

lemma run_complete:
  "Fetcher_onComplete blob \<in> set (actions (fetcher_run v newSegmentFetcher evs))
     \<Longrightarrow> delivered (arrivals evs) blob"
proof (induction evs rule: rev_induct)
  case Nil
  then show ?case by (simp add: fetcher_run_def newSegmentFetcher_def)
next
  case (snoc ev evs)
  let ?s = "fetcher_run v newSegmentFetcher evs"
  have run: "fetcher_run v newSegmentFetcher (evs @ [ev]) = fetcher_step v ?s ev"
    by (simp add: fetcher_run_def)
  show ?case
  proof (cases "Fetcher_onComplete blob \<in> set (actions ?s)")
    case True
    then have "delivered (arrivals evs) blob" by (rule snoc.IH)
    then show ?thesis by (simp add: arrivals_append delivered_mono)
  next
    case False
    with snoc.prems run actions_step_complete [of blob v ?s ev]
    obtain i d where ev: "ev = Fetched i d"
      and acc: "accepts v (length (contentParts ?s)) d"
      and fin: "toSegment (finalBlockId d) = Some (length (contentParts ?s))"
      and nn: "None \<notin> set (contentParts ?s @ [content d])"
      and blob: "blob = concat (map the (contentParts ?s @ [content d]))"
      by auto
    let ?old = "saved v 0 evs"
    let ?ds = "saved v 0 (evs @ [ev])"
    have parts: "contentParts ?s = map content ?old"
      by (simp add: contentParts_run newSegmentFetcher_def)
    from acc parts ev have ds: "?ds = ?old @ [d]"
      by (simp add: saved_append saved_Fetched)
    have 1: "subseq ?ds (arrivals (evs @ [ev]))"
      by (rule subseq_saved)
    have 2: "map (\<lambda>d. toSegment (last (dataName d))) ?ds = map Some [0..<length ?ds]"
      using segments_saved [of v 0 "evs @ [ev]"] by simp
    have 3: "toSegment (finalBlockId (last ?ds)) = Some (length ?ds - 1)"
      using fin parts ds by simp
    have 4: "\<forall>x\<in>set ?ds. content x \<noteq> None"
    proof
      fix x assume "x \<in> set ?ds"
      then have "content x \<in> set (contentParts ?s @ [content d])"
        using parts ds by auto
      with nn show "content x \<noteq> None" by metis
    qed
    have 5: "blob = concat (map (\<lambda>d. the (content d)) ?ds)"
      using blob parts ds by (simp add: comp_def)
    from ds have 6: "?ds \<noteq> []" by simp
    from 1 2 3 4 5 6 show ?thesis
      unfolding delivered_def by blast
  qed
qed

text \<open>
  C4. In every run of a segment fetcher from the state its constructor leaves, every blob
  given to \<^verbatim>\<open>onComplete\<close> is the concatenation of the contents of Data packets that
  arrived, taken in their order of arrival, whose segment numbers are 0, 1, ..., n - 1 one
  after the other, without a gap or a repetition, and the last of which names its own
  segment as the final block. A call of \<^verbatim>\<open>onData\<close> appends the content exactly when the
  Data is verified and its segment number equals the number of parts collected so far; for
  a verified Data with another segment number it keeps the parts as they are and expresses
  a fresh Interest for the expected segment under the Data's name without its last
  component.
\<close>

theorem C4_segments_in_order:
  "(Fetcher_onComplete blob \<in> set (actions (fetcher_run v newSegmentFetcher evs)) \<longrightarrow>
      (\<exists>ds. subseq ds (arrivals evs) \<and> ds \<noteq> []
         \<and> map (\<lambda>d. toSegment (last (dataName d))) ds = map Some [0..<length ds]
         \<and> toSegment (finalBlockId (last ds)) = Some (length ds - 1)
         \<and> (\<forall>d\<in>set ds. content d \<noteq> None)
         \<and> blob = concat (map (\<lambda>d. the (content d)) ds)))
   \<and> contentParts (fst (fetcher_onData v oi d s))
       = (if v d \<and> endsWithSegmentNumber (dataName d)
             \<and> toSegment (last (dataName d)) = Some (length (contentParts s))
          then contentParts s @ [content d] else contentParts s)
   \<and> (v d \<and> endsWithSegmentNumber (dataName d) \<and> toSegment (last (dataName d)) = Some k
        \<and> k \<noteq> length (contentParts s) \<longrightarrow>
      fetcher_onData v oi d s
        = (s\<lparr>actions := actions s
              @ [Fetcher_expressInterest
                   (oi\<lparr>mustBeFresh := False,
                       interestName := appendSegment (butlast (dataName d))
                                         (length (contentParts s))\<rparr>)]\<rparr>,
           None))"
proof -
  have a: "Fetcher_onComplete blob \<in> set (actions (fetcher_run v newSegmentFetcher evs)) \<longrightarrow>
      (\<exists>ds. subseq ds (arrivals evs) \<and> ds \<noteq> []
         \<and> map (\<lambda>d. toSegment (last (dataName d))) ds = map Some [0..<length ds]
         \<and> toSegment (finalBlockId (last ds)) = Some (length ds - 1)
         \<and> (\<forall>d\<in>set ds. content d \<noteq> None)
         \<and> blob = concat (map (\<lambda>d. the (content d)) ds))"
    using run_complete [of blob v evs] unfolding delivered_def by blast
  have b: "contentParts (fst (fetcher_onData v oi d s))
       = (if v d \<and> endsWithSegmentNumber (dataName d)
             \<and> toSegment (last (dataName d)) = Some (length (contentParts s))
          then contentParts s @ [content d] else contentParts s)"
    using contentParts_onData [of v oi d s] by (simp add: accepts_def)
  have c: "v d \<and> endsWithSegmentNumber (dataName d) \<and> toSegment (last (dataName d)) = Some k
        \<and> k \<noteq> length (contentParts s) \<longrightarrow>
      fetcher_onData v oi d s
        = (s\<lparr>actions := actions s
              @ [Fetcher_expressInterest
                   (oi\<lparr>mustBeFresh := False,
                       interestName := appendSegment (butlast (dataName d))
                                         (length (contentParts s))\<rparr>)]\<rparr>,
           None)"
    by (simp add: fetcher_onData_def fetchNextSegment_def Let_def)
  from a b c show ?thesis by blast
qed

theorem C4_witness:
  "Fetcher_onComplete ''abc'' \<in> set (actions (fetcher_run (\<lambda>d. True) newSegmentFetcher fetchThree))
   \<and> (\<exists>ds. subseq ds (arrivals fetchThree) \<and> ds \<noteq> []
         \<and> map (\<lambda>d. toSegment (last (dataName d))) ds = map Some [0..<length ds]
         \<and> toSegment (finalBlockId (last ds)) = Some (length ds - 1)
         \<and> ''abc'' = concat (map (\<lambda>d. the (content d)) ds))
   \<and> endsWithSegmentNumber (dataName (partData 5 ''z'' None))
   \<and> toSegment (last (dataName (partData 5 ''z'' None))) = Some 5
   \<and> fetcher_onData (\<lambda>d. True) (exampleInterest [''x'']) (partData 5 ''z'' None) newSegmentFetcher
        = (newSegmentFetcher\<lparr>actions :=
              [Fetcher_expressInterest
                 ((exampleInterest [''x''])\<lparr>mustBeFresh := False,
                     interestName := [''x'', ''v1'', segmentComponent 0]\<rparr>)]\<rparr>,
           None)"
proof -
  have m: "Fetcher_onComplete ''abc'' \<in> set (actions (fetcher_run (\<lambda>d. True) newSegmentFetcher fetchThree))"
    by code_simp
  have e: "endsWithSegmentNumber (dataName (partData 5 ''z'' None))"
    and t: "toSegment (last (dataName (partData 5 ''z'' None))) = Some 5"
    and n: "appendSegment (butlast (dataName (partData 5 ''z'' None))) 0 = [''x'', ''v1'', segmentComponent 0]"
    by code_simp+
  note a = C4_segments_in_order [of "''abc''" "\<lambda>d. True" fetchThree "exampleInterest [''x'']" "partData 5 ''z'' None"
                    newSegmentFetcher 5]
  from a m e t n show ?thesis
    by (simp add: newSegmentFetcher_def) blast
qed

section \<open>The pipelined fetcher: the in-order arrival\<close>

declare slide.simps [simp del] sendNext.simps [simp del]

lemma array_get_set: "array_get (array_set xs i v) j = (if j = i then v else array_get xs j)"
  by (auto simp: array_get_def array_set_def nth_append)

lemma sendNext_eq:
  "sendNext n c = c\<lparr>expressed := expressed (sendNext n c),
                     interest_sent := interest_sent (sendNext n c),
                     snd_nxt := max (snd_nxt c) (snd_una c + snd_wnd c)\<rparr>"
proof (induction n c rule: sendNext.induct)
  case (1 n c)
  show ?case
  proof (cases "int (snd_nxt c) - int (snd_una c) < int (snd_wnd c)")
    case True
    let ?c1 = "(context_expressInterest (n @ [segmentComponent (snd_nxt c)]) c)
                \<lparr>interest_sent := interest_sent c + 1, snd_nxt := snd_nxt c + 1\<rparr>"
    have s: "sendNext n c = sendNext n ?c1"
      using True by (subst sendNext.simps) simp
    have m: "max (snd_nxt c + 1) (snd_una c + snd_wnd c) = max (snd_nxt c) (snd_una c + snd_wnd c)"
      using True by simp
    from "1.IH" [OF True] have "sendNext n ?c1 = ?c1\<lparr>expressed := expressed (sendNext n ?c1),
                     interest_sent := interest_sent (sendNext n ?c1),
                     snd_nxt := max (snd_nxt ?c1) (snd_una ?c1 + snd_wnd ?c1)\<rparr>" .
    moreover have "?c1\<lparr>expressed := expressed (sendNext n ?c1),
                     interest_sent := interest_sent (sendNext n ?c1),
                     snd_nxt := max (snd_nxt ?c1) (snd_una ?c1 + snd_wnd ?c1)\<rparr>
        = c\<lparr>expressed := expressed (sendNext n ?c1),
                     interest_sent := interest_sent (sendNext n ?c1),
                     snd_nxt := max (snd_nxt c) (snd_una c + snd_wnd c)\<rparr>"
      using m by (simp add: context_expressInterest_def)
    ultimately have "sendNext n ?c1 = c\<lparr>expressed := expressed (sendNext n ?c1),
                     interest_sent := interest_sent (sendNext n ?c1),
                     snd_nxt := max (snd_nxt c) (snd_una c + snd_wnd c)\<rparr>"
      by (rule trans)
    then show ?thesis
      unfolding s [symmetric] .
  next
    case False
    then have "sendNext n c = c"
      by (subst sendNext.simps) simp
    moreover from False have "max (snd_nxt c) (snd_una c + snd_wnd c) = snd_nxt c"
      by simp
    ultimately show ?thesis by simp
  qed
qed


lemma slide_spec:
  "snd_una c \<le> snd_una (slide c)
   \<and> (\<forall>u. snd_una c \<le> u \<and> u < snd_una (slide c) \<longrightarrow>
          array_get (ooo_table c) (u mod ooo_table_size c) \<noteq> None)
   \<and> array_get (ooo_table (slide c)) (snd_una (slide c) mod ooo_table_size c) = None
   \<and> (\<forall>j. array_get (ooo_table (slide c)) j =
          (if \<exists>u. snd_una c \<le> u \<and> u < snd_una (slide c) \<and> j = u mod ooo_table_size c
           then None else array_get (ooo_table c) j))
   \<and> slide c = c\<lparr>ooo_table := ooo_table (slide c),
                   snd_una := snd_una (slide c),
                   totalBlocks := totalBlocks c + (snd_una (slide c) - snd_una c)\<rparr>"
proof (induction c rule: slide.induct)
  case (1 c)
  let ?N = "ooo_table_size c"
  show ?case
  proof (cases "array_get (ooo_table c) (snd_una c mod ?N) \<noteq> None")
    case True
    let ?c1 = "c\<lparr>ooo_table := array_set (ooo_table c) (snd_una c mod ?N) None,
                   snd_una := snd_una c + 1,
                   totalBlocks := totalBlocks c + 1\<rparr>"
    have s: "slide c = slide ?c1"
      using True by (subst slide.simps) simp
    note ih = "1.IH" [OF True]
    from ih have ih1: "snd_una ?c1 \<le> snd_una (slide ?c1)"
      and ih2: "\<forall>u. snd_una ?c1 \<le> u \<and> u < snd_una (slide ?c1) \<longrightarrow>
          array_get (ooo_table ?c1) (u mod ooo_table_size ?c1) \<noteq> None"
      and ih3: "array_get (ooo_table (slide ?c1)) (snd_una (slide ?c1) mod ooo_table_size ?c1) = None"
      and ih4: "\<forall>j. array_get (ooo_table (slide ?c1)) j =
          (if \<exists>u. snd_una ?c1 \<le> u \<and> u < snd_una (slide ?c1) \<and> j = u mod ooo_table_size ?c1
           then None else array_get (ooo_table ?c1) j)"
      by blast+
    have sel: "snd_una ?c1 = snd_una c + 1" "ooo_table_size ?c1 = ?N"
      "ooo_table ?c1 = array_set (ooo_table c) (snd_una c mod ?N) None"
      by simp_all
    note le = ih1 [unfolded sel] and mk = ih2 [unfolded sel] and hole = ih3 [unfolded sel]
      and tb = ih4 [unfolded sel]
    from ih have eq: "slide ?c1 = ?c1\<lparr>ooo_table := ooo_table (slide ?c1),
                   snd_una := snd_una (slide ?c1),
                   totalBlocks := totalBlocks ?c1 + (snd_una (slide ?c1) - snd_una ?c1)\<rparr>"
      by blast
    have a: "snd_una c \<le> snd_una (slide ?c1)" using le by simp
    have b: "\<forall>u. snd_una c \<le> u \<and> u < snd_una (slide ?c1) \<longrightarrow>
          array_get (ooo_table c) (u mod ?N) \<noteq> None"
    proof (intro allI impI)
      fix u assume u: "snd_una c \<le> u \<and> u < snd_una (slide ?c1)"
      show "array_get (ooo_table c) (u mod ?N) \<noteq> None"
      proof (cases "u = snd_una c")
        case True
        with \<open>array_get (ooo_table c) (snd_una c mod ?N) \<noteq> None\<close> show ?thesis by simp
      next
        case False
        with u mk have "array_get (array_set (ooo_table c) (snd_una c mod ?N) None) (u mod ?N) \<noteq> None"
          by simp
        then show ?thesis by (simp add: array_get_set split: if_splits)
      qed
    qed
    have d: "\<forall>j. array_get (ooo_table (slide ?c1)) j =
          (if \<exists>u. snd_una c \<le> u \<and> u < snd_una (slide ?c1) \<and> j = u mod ?N
           then None else array_get (ooo_table c) j)"
    proof
      fix j
      have ex: "(\<exists>u. snd_una c \<le> u \<and> u < snd_una (slide ?c1) \<and> j = u mod ?N)
          \<longleftrightarrow> j = snd_una c mod ?N
              \<or> (\<exists>u. snd_una c + 1 \<le> u \<and> u < snd_una (slide ?c1) \<and> j = u mod ?N)"
      proof
        assume "\<exists>u. snd_una c \<le> u \<and> u < snd_una (slide ?c1) \<and> j = u mod ?N"
        then obtain u where u: "snd_una c \<le> u" "u < snd_una (slide ?c1)" "j = u mod ?N"
          by blast
        show "j = snd_una c mod ?N
              \<or> (\<exists>u. snd_una c + 1 \<le> u \<and> u < snd_una (slide ?c1) \<and> j = u mod ?N)"
        proof (cases "u = snd_una c")
          case True
          with u show ?thesis by simp
        next
          case False
          with u have "snd_una c + 1 \<le> u" by simp
          with u show ?thesis by blast
        qed
      next
        assume r: "j = snd_una c mod ?N
              \<or> (\<exists>u. snd_una c + 1 \<le> u \<and> u < snd_una (slide ?c1) \<and> j = u mod ?N)"
        show "\<exists>u. snd_una c \<le> u \<and> u < snd_una (slide ?c1) \<and> j = u mod ?N"
        proof (cases "j = snd_una c mod ?N")
          case True
          from le have "snd_una c < snd_una (slide ?c1)" by simp
          with True show ?thesis by blast
        next
          case False
          with r obtain u where "snd_una c + 1 \<le> u" "u < snd_una (slide ?c1)" "j = u mod ?N"
            by blast
          then have "snd_una c \<le> u \<and> u < snd_una (slide ?c1) \<and> j = u mod ?N" by simp
          then show ?thesis by blast
        qed
      qed
      show "array_get (ooo_table (slide ?c1)) j =
          (if \<exists>u. snd_una c \<le> u \<and> u < snd_una (slide ?c1) \<and> j = u mod ?N
           then None else array_get (ooo_table c) j)"
      proof (cases "j = snd_una c mod ?N")
        case True
        then have "array_get (array_set (ooo_table c) (snd_una c mod ?N) None) j = None"
          by (simp add: array_get_set)
        with tb [rule_format, of j] have "array_get (ooo_table (slide ?c1)) j = None"
          by (simp split: if_splits)
        with True ex show ?thesis by simp
      next
        case False
        then have "array_get (array_set (ooo_table c) (snd_una c mod ?N) None) j
                     = array_get (ooo_table c) j"
          by (simp add: array_get_set)
        with tb [rule_format, of j] have "array_get (ooo_table (slide ?c1)) j =
          (if \<exists>u. snd_una c + 1 \<le> u \<and> u < snd_una (slide ?c1) \<and> j = u mod ?N
           then None else array_get (ooo_table c) j)"
          by (simp only:)
        with False ex show ?thesis by (simp only: simp_thms)
      qed
    qed
    have e: "slide ?c1 = c\<lparr>ooo_table := ooo_table (slide ?c1),
                   snd_una := snd_una (slide ?c1),
                   totalBlocks := totalBlocks c + (snd_una (slide ?c1) - snd_una c)\<rparr>"
    proof -
      have "?c1\<lparr>ooo_table := ooo_table (slide ?c1),
                   snd_una := snd_una (slide ?c1),
                   totalBlocks := totalBlocks ?c1 + (snd_una (slide ?c1) - snd_una ?c1)\<rparr>
          = c\<lparr>ooo_table := ooo_table (slide ?c1),
                   snd_una := snd_una (slide ?c1),
                   totalBlocks := totalBlocks c + (snd_una (slide ?c1) - snd_una c)\<rparr>"
        using le by simp
      with eq show ?thesis by (rule trans)
    qed
    show ?thesis
      unfolding s by (intro conjI) (rule a b hole d e)+
  next
    case False
    then have s: "slide c = c"
      by (subst slide.simps) simp
    from False show ?thesis
      unfolding s by auto
  qed
qed


lemma slide_fields:
  "ooo_count (slide c) = ooo_count c" "pkt_recved (slide c) = pkt_recved c"
  "timed_out (slide c) = timed_out c" "interest_sent (slide c) = interest_sent c"
  "dups (slide c) = dups c" "max_window (slide c) = max_window c"
  "max_retrans (slide c) = max_retrans c" "snd_wnd (slide c) = snd_wnd c"
  "snd_nxt (slide c) = snd_nxt c" "ooo_table_size (slide c) = ooo_table_size c"
  "terminated (slide c) = terminated c" "expressed (slide c) = expressed c"
  "totalBlocks (slide c) = totalBlocks c + (snd_una (slide c) - snd_una c)"
proof -
  from slide_spec [of c] have eq: "slide c = c\<lparr>ooo_table := ooo_table (slide c),
                   snd_una := snd_una (slide c),
                   totalBlocks := totalBlocks c + (snd_una (slide c) - snd_una c)\<rparr>"
    by blast
  show "ooo_count (slide c) = ooo_count c" by (subst eq) simp
  show "pkt_recved (slide c) = pkt_recved c" by (subst eq) simp
  show "timed_out (slide c) = timed_out c" by (subst eq) simp
  show "interest_sent (slide c) = interest_sent c" by (subst eq) simp
  show "dups (slide c) = dups c" by (subst eq) simp
  show "max_window (slide c) = max_window c" by (subst eq) simp
  show "max_retrans (slide c) = max_retrans c" by (subst eq) simp
  show "snd_wnd (slide c) = snd_wnd c" by (subst eq) simp
  show "snd_nxt (slide c) = snd_nxt c" by (subst eq) simp
  show "ooo_table_size (slide c) = ooo_table_size c" by (subst eq) simp
  show "terminated (slide c) = terminated c" by (subst eq) simp
  show "expressed (slide c) = expressed c" by (subst eq) simp
  show "totalBlocks (slide c) = totalBlocks c + (snd_una (slide c) - snd_una c)"
    by (subst eq) simp
qed

lemma sendNext_fields:
  "ooo_count (sendNext n c) = ooo_count c" "pkt_recved (sendNext n c) = pkt_recved c"
  "timed_out (sendNext n c) = timed_out c" "totalBlocks (sendNext n c) = totalBlocks c"
  "dups (sendNext n c) = dups c" "max_window (sendNext n c) = max_window c"
  "max_retrans (sendNext n c) = max_retrans c" "snd_wnd (sendNext n c) = snd_wnd c"
  "snd_una (sendNext n c) = snd_una c" "ooo_table_size (sendNext n c) = ooo_table_size c"
  "terminated (sendNext n c) = terminated c" "ooo_table (sendNext n c) = ooo_table c"
  "snd_nxt (sendNext n c) = max (snd_nxt c) (snd_una c + snd_wnd c)"
proof -
  note eq = sendNext_eq [of n c]
  show "ooo_count (sendNext n c) = ooo_count c" by (subst eq) simp
  show "pkt_recved (sendNext n c) = pkt_recved c" by (subst eq) simp
  show "timed_out (sendNext n c) = timed_out c" by (subst eq) simp
  show "totalBlocks (sendNext n c) = totalBlocks c" by (subst eq) simp
  show "dups (sendNext n c) = dups c" by (subst eq) simp
  show "max_window (sendNext n c) = max_window c" by (subst eq) simp
  show "max_retrans (sendNext n c) = max_retrans c" by (subst eq) simp
  show "snd_wnd (sendNext n c) = snd_wnd c" by (subst eq) simp
  show "snd_una (sendNext n c) = snd_una c" by (subst eq) simp
  show "ooo_table_size (sendNext n c) = ooo_table_size c" by (subst eq) simp
  show "terminated (sendNext n c) = terminated c" by (subst eq) simp
  show "ooo_table (sendNext n c) = ooo_table c" by (subst eq) simp
  show "snd_nxt (sendNext n c) = max (snd_nxt c) (snd_una c + snd_wnd c)" by (subst eq) simp
qed

lemma context_onData_in_order:
  assumes "content d \<noteq> None" and "dataName d \<noteq> []"
    and "toSegment (last (dataName d)) = Some (snd_una c)"
    and "finalBlockId d = [] \<or> toSegment (finalBlockId d) \<noteq> None"
  shows "fst (context_onData i d c) =
     (if (case (if length (finalBlockId d) > 0 then toSegment (finalBlockId d) else None) of
            None \<Rightarrow> False | Some final \<Rightarrow> snd_una (slid c) = final + 1)
      then (slid c)\<lparr>terminated := True\<rparr>
      else sendNext (butlast (dataName d))
             (if snd_wnd (slid c) < max_window (slid c)
              then (slid c)\<lparr>snd_wnd := snd_wnd (slid c) + 1\<rparr> else slid c))"
proof -
  from assms(4) have nf: "\<not> (length (finalBlockId d) > 0 \<and> toSegment (finalBlockId d) = None)"
    by auto
  have sl: "slide (c\<lparr>pkt_recved := Suc (pkt_recved c), snd_una := Suc (snd_una c),
                      totalBlocks := Suc (totalBlocks c)\<rparr>) = slid c"
    by (simp add: slid_def)
  show ?thesis
  proof (cases "finalBlockId d = []")
    case True
    with assms(1-3) show ?thesis
      by (auto simp: context_onData_def Let_def sl)
  next
    case False
    with assms(4) obtain fin where fin: "toSegment (finalBlockId d) = Some fin" by auto
    show ?thesis
    proof (cases "snd_una (slid c) = fin + 1")
      case True
      with False fin assms(1-3) show ?thesis
        by (auto simp: context_onData_def Let_def sl)
    next
      case nt: False
      with False fin assms(1-3) show ?thesis
        by (auto simp: context_onData_def Let_def sl)
    qed
  qed
qed


lemma slid_spec:
  "snd_una c < snd_una (slid c)"
  "snd_una c < u \<and> u < snd_una (slid c) \<Longrightarrow>
     array_get (ooo_table c) (u mod ooo_table_size c) \<noteq> None"
  "array_get (ooo_table (slid c)) (snd_una (slid c) mod ooo_table_size c) = None"
  "array_get (ooo_table (slid c)) j =
     (if \<exists>u. snd_una c < u \<and> u < snd_una (slid c) \<and> j = u mod ooo_table_size c
      then None else array_get (ooo_table c) j)"
  "totalBlocks (slid c) = totalBlocks c + (snd_una (slid c) - snd_una c)"
  "ooo_count (slid c) = ooo_count c"
proof -
  let ?cA = "c\<lparr>pkt_recved := pkt_recved c + 1, snd_una := snd_una c + 1,
               totalBlocks := totalBlocks c + 1\<rparr>"
  have sel: "snd_una ?cA = Suc (snd_una c)" "ooo_table ?cA = ooo_table c"
    "ooo_table_size ?cA = ooo_table_size c" "totalBlocks ?cA = Suc (totalBlocks c)"
    "ooo_count ?cA = ooo_count c"
    by simp_all
  note sp = slide_spec [of ?cA, folded slid_def, unfolded sel]
  from sp have le: "Suc (snd_una c) \<le> snd_una (slid c)" by blast
  then show "snd_una c < snd_una (slid c)" by simp
  from sp have mk: "\<forall>u. Suc (snd_una c) \<le> u \<and> u < snd_una (slid c) \<longrightarrow>
          array_get (ooo_table c) (u mod ooo_table_size c) \<noteq> None" by blast
  show "array_get (ooo_table c) (u mod ooo_table_size c) \<noteq> None"
    if "snd_una c < u \<and> u < snd_una (slid c)"
    using that mk [rule_format, of u] by simp
  from sp show "array_get (ooo_table (slid c)) (snd_una (slid c) mod ooo_table_size c) = None"
    by blast
  from sp have tb: "\<forall>j. array_get (ooo_table (slid c)) j =
          (if \<exists>u. Suc (snd_una c) \<le> u \<and> u < snd_una (slid c) \<and> j = u mod ooo_table_size c
           then None else array_get (ooo_table c) j)" by blast
  have "(\<exists>u. Suc (snd_una c) \<le> u \<and> u < snd_una (slid c) \<and> j = u mod ooo_table_size c)
      \<longleftrightarrow> (\<exists>u. snd_una c < u \<and> u < snd_una (slid c) \<and> j = u mod ooo_table_size c)"
    by (simp add: Suc_le_eq)
  with tb [rule_format, of j]
  show "array_get (ooo_table (slid c)) j =
     (if \<exists>u. snd_una c < u \<and> u < snd_una (slid c) \<and> j = u mod ooo_table_size c
      then None else array_get (ooo_table c) j)"
    by (simp only:)
  have "totalBlocks (slid c) = totalBlocks ?cA + (snd_una (slid c) - snd_una ?cA)"
    unfolding slid_def by (rule slide_fields)
  with le show "totalBlocks (slid c) = totalBlocks c + (snd_una (slid c) - snd_una c)"
    by simp
  show "ooo_count (slid c) = ooo_count c"
    unfolding slid_def by (simp add: slide_fields)
qed

lemma in_order_fields:
  assumes "content d \<noteq> None" and "dataName d \<noteq> []"
    and "toSegment (last (dataName d)) = Some (snd_una c)"
    and "finalBlockId d = [] \<or> toSegment (finalBlockId d) \<noteq> None"
  shows "snd_una (fst (context_onData i d c)) = snd_una (slid c)"
    and "ooo_table (fst (context_onData i d c)) = ooo_table (slid c)"
    and "totalBlocks (fst (context_onData i d c)) = totalBlocks (slid c)"
    and "ooo_count (fst (context_onData i d c)) = ooo_count (slid c)"
  unfolding context_onData_in_order [OF assms]
  by (simp_all add: sendNext_fields)


text \<open>
  C8, as amended. When \<^verbatim>\<open>onData\<close> receives a Data packet with content whose segment
  number equals \<^verbatim>\<open>snd_una\<close> (and whose FinalBlockId, if present, is a segment
  component), it moves \<^verbatim>\<open>snd_una\<close> past the received segment and then past every
  contiguously marked slot of \<^verbatim>\<open>ooo_table\<close>, clearing each slot it passes and stopping
  at the first empty one; the other slots stay as they are, \<^verbatim>\<open>totalBlocks\<close> grows by
  the number of segments passed, and \<^verbatim>\<open>ooo_count\<close> keeps its value: the code has no
  statement that resets it.
\<close>

theorem C8_in_order_arrival:
  "content d \<noteq> None \<and> dataName d \<noteq> [] \<and> toSegment (last (dataName d)) = Some (snd_una c)
     \<and> (finalBlockId d = [] \<or> toSegment (finalBlockId d) \<noteq> None) \<longrightarrow>
   (let c' = fst (context_onData i d c); N = ooo_table_size c in
      snd_una c < snd_una c'
      \<and> (\<forall>u. snd_una c < u \<and> u < snd_una c' \<longrightarrow> array_get (ooo_table c) (u mod N) \<noteq> None)
      \<and> array_get (ooo_table c') (snd_una c' mod N) = None
      \<and> (\<forall>j. array_get (ooo_table c') j =
            (if \<exists>u. snd_una c < u \<and> u < snd_una c' \<and> j = u mod N then None
             else array_get (ooo_table c) j))
      \<and> (\<forall>m. m < N
              \<and> (\<forall>u. snd_una c < u \<and> u \<le> snd_una c + m \<longrightarrow>
                     array_get (ooo_table c) (u mod N) \<noteq> None)
              \<and> array_get (ooo_table c) ((snd_una c + m + 1) mod N) = None \<longrightarrow>
            snd_una c' = snd_una c + m + 1)
      \<and> totalBlocks c' = totalBlocks c + (snd_una c' - snd_una c)
      \<and> ooo_count c' = ooo_count c)"
proof
  assume h: "content d \<noteq> None \<and> dataName d \<noteq> [] \<and> toSegment (last (dataName d)) = Some (snd_una c)
     \<and> (finalBlockId d = [] \<or> toSegment (finalBlockId d) \<noteq> None)"
  let ?c' = "fst (context_onData i d c)" and ?N = "ooo_table_size c"
  from h have f: "snd_una ?c' = snd_una (slid c)" "ooo_table ?c' = ooo_table (slid c)"
    "totalBlocks ?c' = totalBlocks (slid c)" "ooo_count ?c' = ooo_count (slid c)"
    by (simp_all add: in_order_fields)
  have 1: "snd_una c < snd_una ?c'"
    unfolding f by (rule slid_spec)
  have 2: "\<forall>u. snd_una c < u \<and> u < snd_una ?c' \<longrightarrow> array_get (ooo_table c) (u mod ?N) \<noteq> None"
    unfolding f using slid_spec(2) [of c] by blast
  have 3: "array_get (ooo_table ?c') (snd_una ?c' mod ?N) = None"
    unfolding f by (rule slid_spec)
  have 4: "\<forall>j. array_get (ooo_table ?c') j =
            (if \<exists>u. snd_una c < u \<and> u < snd_una ?c' \<and> j = u mod ?N then None
             else array_get (ooo_table c) j)"
    unfolding f using slid_spec(4) [of c] by blast
  have 5: "snd_una ?c' = snd_una c + m + 1"
    if m: "m < ?N \<and> (\<forall>u. snd_una c < u \<and> u \<le> snd_una c + m \<longrightarrow>
                     array_get (ooo_table c) (u mod ?N) \<noteq> None)
              \<and> array_get (ooo_table c) ((snd_una c + m + 1) mod ?N) = None" for m
  proof -
    have up: "snd_una ?c' \<le> snd_una c + m + 1"
    proof (rule ccontr)
      assume "\<not> snd_una ?c' \<le> snd_una c + m + 1"
      then have "snd_una c < snd_una c + m + 1 \<and> snd_una c + m + 1 < snd_una ?c'" by simp
      with 2 have "array_get (ooo_table c) ((snd_una c + m + 1) mod ?N) \<noteq> None" by blast
      with m show False by simp
    qed
    have "\<not> snd_una ?c' \<le> snd_una c + m"
    proof
      assume le: "snd_una ?c' \<le> snd_una c + m"
      with 1 m have mk: "array_get (ooo_table c) (snd_una ?c' mod ?N) \<noteq> None" by simp
      have nw: "\<not> (\<exists>u. snd_una c < u \<and> u < snd_una ?c' \<and> snd_una ?c' mod ?N = u mod ?N)"
      proof
        assume "\<exists>u. snd_una c < u \<and> u < snd_una ?c' \<and> snd_una ?c' mod ?N = u mod ?N"
        then obtain u where u: "snd_una c < u" "u < snd_una ?c'" "snd_una ?c' mod ?N = u mod ?N"
          by blast
        then have "(snd_una ?c' - u) mod ?N = 0"
          by (metis mod_eq_dvd_iff_nat less_imp_le_nat mod_0_imp_dvd dvd_imp_mod_0)
        moreover from m have "m < ?N" by blast
        with u le have "0 < snd_una ?c' - u" "snd_una ?c' - u < ?N" by arith+
        ultimately show False by simp
      qed
      have "array_get (ooo_table ?c') (snd_una ?c' mod ?N)
                     = array_get (ooo_table c) (snd_una ?c' mod ?N)"
        using 4 [rule_format, of "snd_una ?c' mod ?N"] nw by (simp only: if_False)
      with 3 mk show False by simp
    qed
    with up show ?thesis by simp
  qed
  have 6: "totalBlocks ?c' = totalBlocks c + (snd_una ?c' - snd_una c)"
    unfolding f by (rule slid_spec)
  have 7: "ooo_count ?c' = ooo_count c"
    unfolding f by (rule slid_spec)
  from 1 2 3 4 5 6 7
  show "let c' = fst (context_onData i d c); N = ooo_table_size c in
      snd_una c < snd_una c'
      \<and> (\<forall>u. snd_una c < u \<and> u < snd_una c' \<longrightarrow> array_get (ooo_table c) (u mod N) \<noteq> None)
      \<and> array_get (ooo_table c') (snd_una c' mod N) = None
      \<and> (\<forall>j. array_get (ooo_table c') j =
            (if \<exists>u. snd_una c < u \<and> u < snd_una c' \<and> j = u mod N then None
             else array_get (ooo_table c) j))
      \<and> (\<forall>m. m < N
              \<and> (\<forall>u. snd_una c < u \<and> u \<le> snd_una c + m \<longrightarrow>
                     array_get (ooo_table c) (u mod N) \<noteq> None)
              \<and> array_get (ooo_table c) ((snd_una c + m + 1) mod N) = None \<longrightarrow>
            snd_una c' = snd_una c + m + 1)
      \<and> totalBlocks c' = totalBlocks c + (snd_una c' - snd_una c)
      \<and> ooo_count c' = ooo_count c"
    unfolding Let_def by blast
qed


text \<open>How a call of onData leaves the context, by the branch taken.\<close>

text \<open>
  The scenario of the reordering: with \<^verbatim>\<open>snd_una\<close> at 0 and the segments 1, 2, 3, 4
  marked, the arrival of segment 0 moves \<^verbatim>\<open>snd_una\<close> to 5 and clears the four slots.
\<close>

theorem C8_witness:
  "content (segmentData [''x''] 0 None) \<noteq> None
   \<and> dataName (segmentData [''x''] 0 None) \<noteq> []
   \<and> toSegment (last (dataName (segmentData [''x''] 0 None))) = Some (snd_una fourMarked)
   \<and> finalBlockId (segmentData [''x''] 0 None) = []
   \<and> map (array_get (ooo_table fourMarked)) [1, 2, 3, 4, 5] = [Some 1, Some 2, Some 3, Some 4, None]
   \<and> snd_una fourMarked = 0
   \<and> ooo_count fourMarked = 4
   \<and> snd_una (fst (context_onData (exampleInterest [''x'', segmentComponent 0])
                      (segmentData [''x''] 0 None) fourMarked)) = 5
   \<and> ooo_count (fst (context_onData (exampleInterest [''x'', segmentComponent 0])
                      (segmentData [''x''] 0 None) fourMarked)) = 4
   \<and> map (array_get (ooo_table (fst (context_onData (exampleInterest [''x'', segmentComponent 0])
                      (segmentData [''x''] 0 None) fourMarked)))) [1, 2, 3, 4, 5]
       = [None, None, None, None, None]"
proof -
  let ?d = "segmentData [''x''] 0 None"
  let ?i = "exampleInterest [''x'', segmentComponent 0]"
  define c' where "c' = fst (context_onData ?i ?d fourMarked)"
  have h1: "content ?d \<noteq> None" and h2: "dataName ?d \<noteq> []"
    and h3: "toSegment (last (dataName ?d)) = Some (snd_una fourMarked)"
    and h4: "finalBlockId ?d = []"
    by code_simp+
  have t: "map (array_get (ooo_table fourMarked)) [1, 2, 3, 4, 5]
             = [Some 1, Some 2, Some 3, Some 4, None]"
    and u: "snd_una fourMarked = 0" and oc: "ooo_count fourMarked = 4"
    and n: "ooo_table_size fourMarked = 128"
    by code_simp+
  have hyp: "content ?d \<noteq> None \<and> dataName ?d \<noteq> []
     \<and> toSegment (last (dataName ?d)) = Some (snd_una fourMarked)
     \<and> (finalBlockId ?d = [] \<or> toSegment (finalBlockId ?d) \<noteq> None)"
    by (intro conjI disjI1) (rule h1 h2 h3 h4)+
  note a = C8_in_order_arrival [of ?d fourMarked ?i, unfolded Let_def, folded c'_def, THEN mp, OF hyp]
  have tb: "array_get (ooo_table c') j =
            (if \<exists>u. snd_una fourMarked < u \<and> u < snd_una c'
                    \<and> j = u mod ooo_table_size fourMarked then None
             else array_get (ooo_table fourMarked) j)" for j
    using a by blast
  have cnt: "ooo_count c' = ooo_count fourMarked"
    using a by blast
  have five: "\<forall>m. m < ooo_table_size fourMarked
              \<and> (\<forall>u. snd_una fourMarked < u \<and> u \<le> snd_una fourMarked + m \<longrightarrow>
                     array_get (ooo_table fourMarked) (u mod ooo_table_size fourMarked) \<noteq> None)
              \<and> array_get (ooo_table fourMarked) ((snd_una fourMarked + m + 1) mod ooo_table_size fourMarked) = None \<longrightarrow>
            snd_una c' = snd_una fourMarked + m + 1"
    using a by blast
  have g: "array_get (ooo_table fourMarked) 1 = Some 1" "array_get (ooo_table fourMarked) 2 = Some 2"
    "array_get (ooo_table fourMarked) 3 = Some 3" "array_get (ooo_table fourMarked) 4 = Some 4"
    "array_get (ooo_table fourMarked) 5 = None"
    using t by simp_all
  have mk: "\<forall>u. snd_una fourMarked < u \<and> u \<le> snd_una fourMarked + 4 \<longrightarrow>
              array_get (ooo_table fourMarked) (u mod ooo_table_size fourMarked) \<noteq> None"
  proof (intro allI impI)
    fix k assume "snd_una fourMarked < k \<and> k \<le> snd_una fourMarked + 4"
    then have "k = 1 \<or> k = 2 \<or> k = 3 \<or> k = 4" unfolding u by arith
    then show "array_get (ooo_table fourMarked) (k mod ooo_table_size fourMarked) \<noteq> None"
      unfolding n using g by auto
  qed
  have hole: "array_get (ooo_table fourMarked) ((snd_una fourMarked + 4 + 1) mod ooo_table_size fourMarked)
                = None"
    unfolding u n using g by simp
  have lt: "4 < ooo_table_size fourMarked" unfolding n by simp
  have una: "snd_una c' = 5"
    using five [THEN spec, of 4, THEN mp, OF conjI [OF lt conjI [OF mk hole]]] unfolding u by simp
  have cleared: "array_get (ooo_table c') j = None"
    if "j = 1 \<or> j = 2 \<or> j = 3 \<or> j = 4 \<or> j = 5" for j
  proof (cases "j = 5")
    case True
    have "\<not> (\<exists>k. snd_una fourMarked < k \<and> k < snd_una c' \<and> j = k mod ooo_table_size fourMarked)"
      unfolding u n una True by auto
    then show ?thesis unfolding tb [of j] using g True by simp
  next
    case False
    with that have "snd_una fourMarked < j \<and> j < snd_una c' \<and> j = j mod ooo_table_size fourMarked"
      unfolding una u n by auto
    then have "\<exists>k. snd_una fourMarked < k \<and> k < snd_una c'
                    \<and> j = k mod ooo_table_size fourMarked" by blast
    then show ?thesis unfolding tb [of j] by (simp only: if_True)
  qed
  have tab: "map (array_get (ooo_table c')) [1, 2, 3, 4, 5] = [None, None, None, None, None]"
    using cleared by simp
  have cnt4: "ooo_count c' = 4" unfolding cnt oc ..
  show ?thesis
    unfolding c'_def [symmetric]
    by (intro conjI) (rule h1 h2 h3 h4 t u oc una cnt4 tab)+
qed

text \<open>
  C8 as stated fails: after the segments 1, 2, 3, 4 and then 0 arrived, \<^verbatim>\<open>snd_una\<close> is
  5 but \<^verbatim>\<open>ooo_count\<close> is 4, not 0; likewise after 0, 2, 1 from the constructor's
  state, where it is 1.
\<close>

theorem C8_counterexample:
  "snd_una (context_run reorderState [arrival 1, arrival 2, arrival 3, arrival 4, arrival 0]) = 5
   \<and> ooo_count (context_run reorderState [arrival 1, arrival 2, arrival 3, arrival 4, arrival 0]) = 4
   \<and> snd_una (context_run newContentContext [arrival 0, arrival 2, arrival 1]) = 3
   \<and> ooo_count (context_run newContentContext [arrival 0, arrival 2, arrival 1]) = 1"
  by code_simp

section \<open>The pipelined fetcher: the window\<close>


















end
